theory Spec2Isabelle
  imports Main "HOL-Library.Word"
begin

section \<open>Strings and byte buffers\<close>

text \<open>
  A JavaScript string is a sequence of UTF-16 code units; a \<^verbatim>\<open>Buffer\<close> is a sequence
  of bytes. String literals of the source are written \<open>js ''...''\<close>.
\<close>

type_synonym jschar = "16 word"
type_synonym jsstring = "jschar list"
type_synonym byte = "8 word"
type_synonym bytes = "byte list"

definition js :: "string \<Rightarrow> jsstring" where
  "js s = map (\<lambda>c. of_nat (of_char c)) s"

abbreviation SP :: jschar where "SP \<equiv> 0x20"
abbreviation NL :: jschar where "NL \<equiv> 0x0A"
abbreviation TAB :: jschar where "TAB \<equiv> 0x09"

text \<open>
  \<^verbatim>\<open>String.prototype.trim\<close> removes the code units of ECMAScript's WhiteSpace and
  LineTerminator productions from both ends.
\<close>

definition isWhiteSpace :: "jschar \<Rightarrow> bool" where
  "isWhiteSpace c \<longleftrightarrow>
     c = 0x09 \<or> c = 0x0A \<or> c = 0x0B \<or> c = 0x0C \<or> c = 0x0D \<or> c = 0x20 \<or> c = 0xA0 \<or>
     c = 0x1680 \<or> (0x2000 \<le> c \<and> c \<le> 0x200A) \<or> c = 0x2028 \<or> c = 0x2029 \<or>
     c = 0x202F \<or> c = 0x205F \<or> c = 0x3000 \<or> c = 0xFEFF"

definition trim :: "jsstring \<Rightarrow> jsstring" where
  "trim s = rev (dropWhile isWhiteSpace (rev (dropWhile isWhiteSpace s)))"

text \<open>\<^verbatim>\<open>s.endsWith(suf)\<close> and \<^verbatim>\<open>s.includes(sub)\<close>.\<close>

definition endsWith :: "'a list \<Rightarrow> 'a list \<Rightarrow> bool" where
  "endsWith s suf \<longleftrightarrow> length suf \<le> length s \<and> drop (length s - length suf) s = suf"

fun includes_js :: "'a list \<Rightarrow> 'a list \<Rightarrow> bool" where
  "includes_js [] sub = (sub = [])"
| "includes_js (x # xs) sub = (take (length sub) (x # xs) = sub \<or> includes_js xs sub)"

text \<open>
  \<^verbatim>\<open>s.split(sep)\<close> for a string separator: the pieces between the successive leftmost
  occurrences of \<open>sep\<close>; the empty separator splits into single code units.
\<close>

function split_js :: "'a list \<Rightarrow> 'a list \<Rightarrow> 'a list list" where
  "split_js sep [] = (if sep = [] then [] else [[]])"
| "split_js sep (x # xs) =
     (if sep = [] then map (\<lambda>c. [c]) (x # xs)
      else if take (length sep) (x # xs) = sep
      then [] # split_js sep (drop (length sep) (x # xs))
      else (case split_js sep xs of
              [] \<Rightarrow> [[x]]
            | piece # pieces \<Rightarrow> (x # piece) # pieces))"
  by pat_completeness auto
termination
  by (relation "measure (\<lambda>(sep, s). length s)") (auto simp: neq_Nil_conv)

text \<open>\<^verbatim>\<open>parts.join(sep)\<close>.\<close>

fun join_js :: "'a list \<Rightarrow> 'a list list \<Rightarrow> 'a list" where
  "join_js sep [] = []"
| "join_js sep [l] = l"
| "join_js sep (l # m # ls) = l @ sep @ join_js sep (m # ls)"

text \<open>
  \<^verbatim>\<open>s.replace(/c{n,}/g, r)\<close>: scanning from the left, every maximal run of at least
  \<open>n\<close> copies of \<open>c\<close> is replaced by \<open>r\<close>; everything else is kept.
\<close>

function replace_runs :: "nat \<Rightarrow> 'a \<Rightarrow> 'a list \<Rightarrow> 'a list \<Rightarrow> 'a list" where
  "replace_runs n c r [] = []"
| "replace_runs n c r (x # xs) =
     (if x = c \<and> n \<le> length (takeWhile (\<lambda>y. y = c) (x # xs))
      then r @ replace_runs n c r (dropWhile (\<lambda>y. y = c) xs)
      else x # replace_runs n c r xs)"
  by pat_completeness auto
termination
  by (relation "measure (\<lambda>(n, c, r, s). length s)")
     (auto simp: length_dropWhile_le less_Suc_eq_le)

text \<open>\<^verbatim>\<open>s.replace(/\t/g, ' ')\<close>.\<close>

definition replace_tabs :: "jsstring \<Rightarrow> jsstring" where
  "replace_tabs s = map (\<lambda>c. if c = TAB then SP else c) s"

text \<open>
  \<^verbatim>\<open>toLowerCase\<close> as far as the suffix tests on file names need it: the letters A-Z
  are lower-cased and other code units are left as they are. The only code units that
  lower-case to a character of \<^verbatim>\<open>.pdf\<close> or \<^verbatim>\<open>.docx\<close> are these characters
  and their ASCII capitals, so the tests are decided as in the source. Where the wording
  of the result matters, in the generated title, the case mappings of the JavaScript
  engine over the whole of Unicode are taken from the environment instead.
\<close>

definition toLowerCase :: "jsstring \<Rightarrow> jsstring" where
  "toLowerCase s = map (\<lambda>c. if 0x41 \<le> c \<and> c \<le> 0x5A then c + 0x20 else c) s"

text \<open>Decimal digits of a number, as \<^verbatim>\<open>String(n)\<close> prints a non-negative integer.\<close>

function show_nat :: "nat \<Rightarrow> jsstring" where
  "show_nat n = (if n < 10 then [of_nat (48 + n)] else show_nat (n div 10) @ [of_nat (48 + n mod 10)])"
  by pat_completeness auto
termination
  by (relation "measure id") auto

text \<open>\<^verbatim>\<open>xs[i]\<close>, which is \<^verbatim>\<open>undefined\<close> out of range.\<close>

definition nth_opt :: "'a list \<Rightarrow> nat \<Rightarrow> 'a option" where
  "nth_opt xs i = (if i < length xs then Some (xs ! i) else None)"

text \<open>
  \<^verbatim>\<open>buffer.toString('utf-8')\<close>: the UTF-8 decoder with replacement. \<open>needed\<close> counts
  the continuation bytes still expected, \<open>cp\<close> holds the bits read so far, and the next
  byte must lie in \<open>lower..upper\<close>; an ill-formed sequence yields U+FFFD and the
  offending byte is decoded again from the initial state.
\<close>

definition utf16 :: "nat \<Rightarrow> jsstring" where
  "utf16 cp = (if cp < 0x10000 then [of_nat cp]
               else [of_nat (0xD800 + (cp - 0x10000) div 0x400),
                     of_nat (0xDC00 + (cp - 0x10000) mod 0x400)])"

function utf8_decode_from :: "nat \<Rightarrow> nat \<Rightarrow> nat \<Rightarrow> nat \<Rightarrow> bytes \<Rightarrow> jsstring" where
  "utf8_decode_from needed cp lower upper [] = (if needed = 0 then [] else [0xFFFD])"
| "utf8_decode_from needed cp lower upper (b # bs) =
     (if needed = 0 then
        (if unat b \<le> 0x7F then of_nat (unat b) # utf8_decode_from 0 0 0x80 0xBF bs
         else if 0xC2 \<le> unat b \<and> unat b \<le> 0xDF
           then utf8_decode_from 1 (unat b mod 0x20) 0x80 0xBF bs
         else if 0xE0 \<le> unat b \<and> unat b \<le> 0xEF
           then utf8_decode_from 2 (unat b mod 0x10)
                  (if unat b = 0xE0 then 0xA0 else 0x80) (if unat b = 0xED then 0x9F else 0xBF) bs
         else if 0xF0 \<le> unat b \<and> unat b \<le> 0xF4
           then utf8_decode_from 3 (unat b mod 8)
                  (if unat b = 0xF0 then 0x90 else 0x80) (if unat b = 0xF4 then 0x8F else 0xBF) bs
         else 0xFFFD # utf8_decode_from 0 0 0x80 0xBF bs)
      else if unat b < lower \<or> upper < unat b
        then 0xFFFD # utf8_decode_from 0 0 0x80 0xBF (b # bs)
      else if needed = 1
        then utf16 (cp * 0x40 + unat b mod 0x40) @ utf8_decode_from 0 0 0x80 0xBF bs
      else utf8_decode_from (needed - 1) (cp * 0x40 + unat b mod 0x40) 0x80 0xBF bs)"
  by pat_completeness auto
termination
  by (relation "measure (\<lambda>(needed, cp, lower, upper, bs).
        2 * length bs + (if needed = 0 then 0 else 1))") auto

definition utf8_toString :: "bytes \<Rightarrow> jsstring" where
  "utf8_toString buf = utf8_decode_from 0 0 0x80 0xBF buf"

section \<open>Text normalizer\<close>

text \<open>\<^verbatim>\<open>cleanText\<close> of the PDF parser.\<close>

definition cleanText_pdf :: "jsstring \<Rightarrow> jsstring" where
  "cleanText_pdf text =
     trim (join_js [NL] (map trim (split_js [NL]
       (replace_runs 3 NL [NL, NL] (replace_runs 2 SP [SP] text)))))"

text \<open>\<^verbatim>\<open>cleanText\<close> of the DOCX parser.\<close>

definition cleanText_docx :: "jsstring \<Rightarrow> jsstring" where
  "cleanText_docx text =
     trim (join_js [NL] (filter (\<lambda>line. length line > 0) (map trim (split_js [NL]
       (replace_tabs (replace_runs 3 NL [NL, NL] (replace_runs 2 SP [SP] text)))))))"

section \<open>Format sniffer\<close>

text \<open>
  \<^verbatim>\<open>isValidPDFBuffer\<close> decodes the first five bytes and compares them with
  \<^verbatim>\<open>'%PDF-'\<close>; \<^verbatim>\<open>isValidDOCXBuffer\<close> looks at the first two bytes. Both bodies
  are guarded by a handler that returns \<^verbatim>\<open>false\<close>, and nothing in them throws on
  a buffer, so both are total functions to \<open>bool\<close>: neither can throw.
\<close>

definition isValidPDFBuffer :: "bytes \<Rightarrow> bool" where
  "isValidPDFBuffer buffer = (let header = utf8_toString (take 5 buffer) in header = js ''%PDF-'')"

definition isValidDOCXBuffer :: "bytes \<Rightarrow> bool" where
  "isValidDOCXBuffer buffer =
     (let header = take 2 buffer in nth_opt header 0 = Some 0x50 \<and> nth_opt header 1 = Some 0x4B)"

section \<open>Input validator\<close>

record File =
  fname :: jsstring
  ftype :: jsstring
  fbytes :: bytes

text \<open>\<^verbatim>\<open>file.size\<close> is the byte length of the content.\<close>

definition fsize :: "File \<Rightarrow> nat" where
  "fsize f = length (fbytes f)"

record ValidationResult =
  valid :: bool
  verror :: "jsstring option"

definition MAX_FILE_SIZE :: nat where
  "MAX_FILE_SIZE = 10 * 1024 * 1024"

definition PDF_MIME :: jsstring where
  "PDF_MIME = js ''application/pdf''"

definition DOCX_MIME :: jsstring where
  "DOCX_MIME = js ''application/vnd.openxmlformats-officedocument.wordprocessingml.document''"

definition ALLOWED_FILE_TYPES :: "(jsstring \<times> jsstring list) list" where
  "ALLOWED_FILE_TYPES = [(PDF_MIME, [js ''.pdf'']), (DOCX_MIME, [js ''.docx''])]"

definition ALLOWED_EXTENSIONS :: "jsstring list" where
  "ALLOWED_EXTENSIONS = [js ''.pdf'', js ''.docx'']"

definition validateFileType :: "File \<Rightarrow> ValidationResult" where
  "validateFileType f =
     (let fileType = ftype f; fileName = toLowerCase (fname f) in
      if fileType \<notin> set (map fst ALLOWED_FILE_TYPES)
      then \<lparr>valid = False,
            verror = Some (js ''Invalid file type. Only PDF and DOCX files are allowed.'')\<rparr>
      else if \<not> list_ex (\<lambda>ext. endsWith fileName ext) ALLOWED_EXTENSIONS
      then \<lparr>valid = False,
            verror = Some (js ''Invalid file extension. Only .pdf and .docx files are allowed.'')\<rparr>
      else \<lparr>valid = True, verror = None\<rparr>)"

text \<open>
  \<^verbatim>\<open>(file.size / (1024 * 1024)).toFixed(2)\<close>: the quotient by a power of two is exact,
  and \<^verbatim>\<open>toFixed\<close> rounds it to the nearest hundredth, a tie upwards.
\<close>

definition sizeMB_toFixed2 :: "nat \<Rightarrow> jsstring" where
  "sizeMB_toFixed2 bytes =
     (let n = (200 * bytes + 1048576) div 2097152 in
      show_nat (n div 100) @ js ''.'' @ show_nat (n mod 100 div 10) @ show_nat (n mod 10))"

definition validateFileSize :: "File \<Rightarrow> ValidationResult" where
  "validateFileSize f =
     (if fsize f > MAX_FILE_SIZE
      then \<lparr>valid = False,
            verror = Some (js ''File size ('' @ sizeMB_toFixed2 (fsize f) @
              js ''MB) exceeds the maximum allowed size of '' @
              show_nat (MAX_FILE_SIZE div (1024 * 1024)) @ js ''MB.'')\<rparr>
      else \<lparr>valid = True, verror = None\<rparr>)"

definition validateFileNotEmpty :: "File \<Rightarrow> ValidationResult" where
  "validateFileNotEmpty f =
     (if fsize f = 0
      then \<lparr>valid = False,
            verror = Some (js ''File is empty. Please upload a valid resume file.'')\<rparr>
      else \<lparr>valid = True, verror = None\<rparr>)"

definition validateResumeFile :: "File \<Rightarrow> ValidationResult" where
  "validateResumeFile f =
     (let emptyCheck = validateFileNotEmpty f in
      if \<not> valid emptyCheck then emptyCheck
      else let typeCheck = validateFileType f in
      if \<not> valid typeCheck then typeCheck
      else let sizeCheck = validateFileSize f in
      if \<not> valid sizeCheck then sizeCheck
      else \<lparr>valid = True, verror = None\<rparr>)"

text \<open>
  The sentence of the specification about the declared-type check, in its own words: the
  MIME string and the extension agree with one pair of the allow-list.
\<close>

definition agrees_with_allowed_pair :: "File \<Rightarrow> bool" where
  "agrees_with_allowed_pair f \<longleftrightarrow>
     list_ex (\<lambda>(mime, exts). ftype f = mime \<and>
                list_ex (\<lambda>ext. endsWith (toLowerCase (fname f)) ext) exts) ALLOWED_FILE_TYPES"

section \<open>PDF extractor\<close>

text \<open>
  A value thrown by a library call: an \<^verbatim>\<open>Error\<close> with its message, or something
  that is not an \<^verbatim>\<open>Error\<close>.
\<close>

datatype js_exn = JsError jsstring | JsThrown

text \<open>
  The \<^verbatim>\<open>pdf-parse\<close> library is a collaborator. \<open>PDFParse data\<close> stands for
  \<^verbatim>\<open>new PDFParse({ data })\<close>: what the three methods the extractor calls on that
  parser do, each of them either throwing or returning. \<open>getText\<close> returns the text
  (empty when the library reports none) and the number of pages, \<open>getInfo\<close> the raw
  metadata. Loading the library and constructing the parser are taken to succeed.
\<close>

record pdf_parser =
  getText :: "js_exn + jsstring \<times> nat"
  getInfo :: "js_exn + jsstring"
  destroy :: "js_exn option"

datatype parser_call = New | GetText | GetInfo | Destroy

record PDFParseResult =
  pdf_success :: bool
  pdf_text :: "jsstring option"
  pdf_error :: "jsstring option"
  pdf_metadata :: "(nat \<times> jsstring) option"

definition pdf_failure :: "jsstring \<Rightarrow> PDFParseResult" where
  "pdf_failure msg =
     \<lparr>pdf_success = False, pdf_text = None, pdf_error = Some msg, pdf_metadata = None\<rparr>"

text \<open>The \<^verbatim>\<open>catch\<close> block of \<^verbatim>\<open>extractTextFromPDF\<close>.\<close>

definition pdf_catch :: "js_exn \<Rightarrow> PDFParseResult" where
  "pdf_catch e =
     (case e of
        JsError message \<Rightarrow>
          if includes_js message (js ''Invalid PDF'')
          then pdf_failure (js ''Invalid PDF file. The file may be corrupted or not a valid PDF.'')
          else if includes_js message (js ''password'')
          then pdf_failure (js ''PDF is password-protected. Please upload an unprotected file.'')
          else pdf_failure (js ''PDF parsing failed: '' @ message)
      | JsThrown \<Rightarrow> pdf_failure (js ''An unknown error occurred while parsing the PDF.''))"

text \<open>
  \<^verbatim>\<open>extractTextFromPDF\<close>, returning its result together with the calls it made on
  the parser, in order.
\<close>

definition extractTextFromPDF ::
  "(bytes \<Rightarrow> pdf_parser) \<Rightarrow> bytes \<Rightarrow> PDFParseResult \<times> parser_call list" where
  "extractTextFromPDF PDFParse pdfBuffer =
     (if length pdfBuffer = 0 then (pdf_failure (js ''PDF buffer is empty''), [])
      else let parser = PDFParse pdfBuffer in
        case getText parser of
          Inl e \<Rightarrow> (pdf_catch e, [New, GetText])
        | Inr (text, pages) \<Rightarrow>
           (case getInfo parser of
              Inl e \<Rightarrow> (pdf_catch e, [New, GetText, GetInfo])
            | Inr info \<Rightarrow>
               (case destroy parser of
                  Some e \<Rightarrow> (pdf_catch e, [New, GetText, GetInfo, Destroy])
                | None \<Rightarrow>
                   if length (trim text) = 0
                   then (pdf_failure (js
                     ''No text content found in PDF. The file might be image-based or corrupted.''),
                     [New, GetText, GetInfo, Destroy])
                   else (\<lparr>pdf_success = True, pdf_text = Some (cleanText_pdf text),
                          pdf_error = None, pdf_metadata = Some (pages, info)\<rparr>,
                         [New, GetText, GetInfo, Destroy]))))"


definition INVALID_PDF_MESSAGE :: jsstring where
  "INVALID_PDF_MESSAGE = js ''Invalid PDF file. The file may be corrupted or not a valid PDF.''"

section \<open>DOCX extractor\<close>

datatype message_type = MsgError | MsgWarning

record mammoth_result =
  mvalue :: jsstring
  messages :: "(message_type \<times> jsstring) list"

record DOCXParseResult =
  docx_success :: bool
  docx_text :: "jsstring option"
  docx_error :: "jsstring option"
  docx_metadata :: "jsstring list option"

definition docx_failure :: "jsstring \<Rightarrow> DOCXParseResult" where
  "docx_failure msg =
     \<lparr>docx_success = False, docx_text = None, docx_error = Some msg, docx_metadata = None\<rparr>"

definition docx_catch :: "js_exn \<Rightarrow> DOCXParseResult" where
  "docx_catch e =
     (case e of
        JsError message \<Rightarrow>
          if includes_js message (js ''not a valid'')
          then docx_failure (js
            ''Invalid DOCX file. The file may be corrupted or not a valid DOCX format.'')
          else if includes_js message (js ''zip'')
          then docx_failure (js ''DOCX file structure is invalid. The file may be corrupted.'')
          else docx_failure (js ''DOCX parsing failed: '' @ message)
      | JsThrown \<Rightarrow> docx_failure (js ''An unknown error occurred while parsing the DOCX file.''))"

text \<open>
  \<^verbatim>\<open>extractTextFromDOCX\<close>; \<open>extractRawText\<close> stands for
  \<^verbatim>\<open>mammoth.extractRawText\<close>, which throws or returns a text with messages.
\<close>

definition extractTextFromDOCX ::
  "(bytes \<Rightarrow> js_exn + mammoth_result) \<Rightarrow> bytes \<Rightarrow> DOCXParseResult" where
  "extractTextFromDOCX extractRawText docxBuffer =
     (if length docxBuffer = 0 then docx_failure (js ''DOCX buffer is empty'')
      else case extractRawText docxBuffer of
        Inl e \<Rightarrow> docx_catch e
      | Inr result \<Rightarrow>
         if list_ex (\<lambda>msg. fst msg = MsgError) (messages result)
         then docx_failure (js ''DOCX parsing errors: '' @
                join_js (js ''; '') (map snd (filter (\<lambda>msg. fst msg = MsgError) (messages result))))
         else if length (trim (mvalue result)) = 0
         then docx_failure (js
           ''No text content found in DOCX. The file might be empty or corrupted.'')
         else let warnings = map snd (filter (\<lambda>msg. fst msg = MsgWarning) (messages result)) in
           \<lparr>docx_success = True, docx_text = Some (cleanText_docx (mvalue result)),
            docx_error = None,
            docx_metadata = (if length warnings > 0 then Some warnings else None)\<rparr>)"

section \<open>Collaborators: identity provider, blob store, datastore\<close>

text \<open>
  What the action inserts into the \<^verbatim>\<open>resumes\<close> table, and a row of that table.
\<close>

record ResumeInsert =
  user_id :: jsstring
  title :: jsstring
  file_url :: jsstring
  raw_text :: jsstring
  file_size :: nat
  file_type :: jsstring

record Resume = ResumeInsert +
  resume_id :: jsstring

text \<open>
  The state the action works on: the objects of the \<^verbatim>\<open>resumes\<close> bucket by path,
  the rows of the \<^verbatim>\<open>resumes\<close> table by id, and the log of the writing calls issued
  to the two stores.
\<close>

datatype call =
    StorageUpload jsstring
  | StorageRemove "jsstring list"
  | ResumesInsert ResumeInsert
  | ResumesDelete jsstring

record world =
  blobs :: "jsstring \<rightharpoonup> bytes"
  resumes :: "jsstring \<rightharpoonup> Resume"
  calls :: "call list"

text \<open>
  How the collaborators answer during one run of an action: the user the identity
  provider reports, the clock, the public URL the bucket gives a path, whether a store
  rejects a call (with the message of its error), the id the datastore assigns, the
  two parsing libraries, and the engine's \<^verbatim>\<open>toUpperCase\<close> and
  \<^verbatim>\<open>toLowerCase\<close> on arbitrary strings.
\<close>

record env =
  auth_user :: "jsstring option"
  auth_error :: bool
  now_iso :: jsstring
  public_url :: "jsstring \<Rightarrow> jsstring"
  storage_upload_error :: "jsstring option"
  storage_remove_error :: bool
  db_insert_error :: "jsstring option"
  db_new_id :: jsstring
  db_delete_error :: bool
  PDFParse :: "bytes \<Rightarrow> pdf_parser"
  extractRawText :: "bytes \<Rightarrow> js_exn + mammoth_result"
  unicode_toUpperCase :: "jsstring \<Rightarrow> jsstring"
  unicode_toLowerCase :: "jsstring \<Rightarrow> jsstring"

text \<open>
  \<^verbatim>\<open>storage.from('resumes').upload(path, file, { upsert: false })\<close>: stores the
  object unless the store rejects the call or the path is taken.
\<close>

definition storage_upload ::
  "env \<Rightarrow> jsstring \<Rightarrow> bytes \<Rightarrow> world \<Rightarrow> (jsstring + jsstring) \<times> world" where
  "storage_upload e path content w =
     (let w' = w\<lparr>calls := calls w @ [StorageUpload path]\<rparr> in
      case storage_upload_error e of
        Some message \<Rightarrow> (Inl message, w')
      | None \<Rightarrow>
          if blobs w path \<noteq> None then (Inl (js ''The resource already exists''), w')
          else (Inr path, w'\<lparr>blobs := (blobs w)(path \<mapsto> content)\<rparr>))"

text \<open>
  \<^verbatim>\<open>storage.from('resumes').remove(paths)\<close>: the objects are gone unless the store
  fails. The actions never look at what the call returns.
\<close>

definition storage_remove :: "env \<Rightarrow> jsstring list \<Rightarrow> world \<Rightarrow> world" where
  "storage_remove e paths w =
     (let w' = w\<lparr>calls := calls w @ [StorageRemove paths]\<rparr> in
      if storage_remove_error e then w'
      else w'\<lparr>blobs := blobs w |` (- set paths)\<rparr>)"

text \<open>\<^verbatim>\<open>from('resumes').insert(resumeData).select().single()\<close>.\<close>

definition db_insert :: "env \<Rightarrow> ResumeInsert \<Rightarrow> world \<Rightarrow> (jsstring + Resume) \<times> world" where
  "db_insert e resumeData w =
     (let w' = w\<lparr>calls := calls w @ [ResumesInsert resumeData]\<rparr> in
      case db_insert_error e of
        Some message \<Rightarrow> (Inl message, w')
      | None \<Rightarrow>
          (let resume = ResumeInsert.extend resumeData \<lparr>resume_id = db_new_id e\<rparr> in
           (Inr resume, w'\<lparr>resumes := (resumes w)(db_new_id e \<mapsto> resume)\<rparr>)))"

text \<open>
  \<^verbatim>\<open>from('resumes').select('file_url, user_id').eq('id', resumeId).single()\<close>. The
  actions use the client that carries the caller's session, and the table is under row
  level security with the policy \<^verbatim>\<open>FOR SELECT USING (auth.uid() = user_id)\<close> of
  \<^verbatim>\<open>002_rls_policies.sql\<close>: the lookup yields the row only to its owner, and no row,
  which \<^verbatim>\<open>single()\<close> reports as an error, to anybody else. The caller the
  datastore sees is the user the identity provider reports; both read the same session.
  The policies for insert and delete hold of every call the actions make, since those
  are issued for the caller's own id.
\<close>

definition db_select_single :: "env \<Rightarrow> jsstring \<Rightarrow> world \<Rightarrow> Resume option" where
  "db_select_single e resumeId w =
     (case resumes w resumeId of
        None \<Rightarrow> None
      | Some resume \<Rightarrow> if auth_user e = Some (user_id resume) then Some resume else None)"

text \<open>
  \<^verbatim>\<open>from('resumes').delete().eq('id', resumeId)\<close>; the first component tells
  whether the datastore reported an error.
\<close>

definition db_delete :: "env \<Rightarrow> jsstring \<Rightarrow> world \<Rightarrow> bool \<times> world" where
  "db_delete e resumeId w =
     (let w' = w\<lparr>calls := calls w @ [ResumesDelete resumeId]\<rparr> in
      if db_delete_error e then (True, w')
      else (False, w'\<lparr>resumes := (resumes w)(resumeId := None)\<rparr>))"

section \<open>Ingestion orchestrator\<close>

record ParseResumeData =
  d_resumeId :: jsstring
  d_title :: jsstring
  d_fileUrl :: jsstring
  d_textPreview :: jsstring

record ParseResumeResult =
  success :: bool
  error :: "jsstring option"
  data :: "ParseResumeData option"

definition parse_failure :: "jsstring option \<Rightarrow> ParseResumeResult" where
  "parse_failure msg = \<lparr>success = False, error = msg, data = None\<rparr>"

text \<open>The path \<^verbatim>\<open>uploadResumeFile\<close> generates for a file of a user.\<close>

definition isSafeChar :: "jschar \<Rightarrow> bool" where
  "isSafeChar c \<longleftrightarrow>
     (0x61 \<le> c \<and> c \<le> 0x7A) \<or> (0x41 \<le> c \<and> c \<le> 0x5A) \<or> (0x30 \<le> c \<and> c \<le> 0x39) \<or>
     c = 0x2E \<or> c = 0x5F \<or> c = 0x2D"

definition generatedFilePath :: "env \<Rightarrow> File \<Rightarrow> jsstring \<Rightarrow> jsstring" where
  "generatedFilePath e f userId =
     (let timestamp = map (\<lambda>c. if c = 0x3A \<or> c = 0x2E then 0x2D else c) (now_iso e);
          safeFilename = map (\<lambda>c. if isSafeChar c then c else 0x5F) (fname f)
      in userId @ js ''/'' @ timestamp @ js ''_'' @ safeFilename)"

record UploadResult =
  up_success :: bool
  up_error :: "jsstring option"
  up_filePath :: "jsstring option"
  up_fileUrl :: "jsstring option"

definition uploadResumeFile :: "env \<Rightarrow> File \<Rightarrow> jsstring \<Rightarrow> world \<Rightarrow> UploadResult \<times> world" where
  "uploadResumeFile e f userId w =
     (let filePath = generatedFilePath e f userId in
      case storage_upload e filePath (fbytes f) w of
        (Inl message, w') \<Rightarrow>
          (\<lparr>up_success = False, up_error = Some (js ''Failed to upload file: '' @ message),
            up_filePath = None, up_fileUrl = None\<rparr>, w')
      | (Inr path, w') \<Rightarrow>
          (\<lparr>up_success = True, up_error = None,
            up_filePath = Some path, up_fileUrl = Some (public_url e filePath)\<rparr>, w'))"

record ExtractionResult =
  ex_success :: bool
  ex_error :: "jsstring option"
  ex_text :: "jsstring option"

definition extractTextFromFile :: "env \<Rightarrow> File \<Rightarrow> ExtractionResult" where
  "extractTextFromFile e f =
     (if ftype f = PDF_MIME \<or> endsWith (toLowerCase (fname f)) (js ''.pdf'')
      then (let result = fst (extractTextFromPDF (PDFParse e) (fbytes f)) in
            \<lparr>ex_success = pdf_success result, ex_error = pdf_error result,
             ex_text = pdf_text result\<rparr>)
      else if ftype f = DOCX_MIME \<or> endsWith (toLowerCase (fname f)) (js ''.docx'')
      then (let result = extractTextFromDOCX (extractRawText e) (fbytes f) in
            \<lparr>ex_success = docx_success result, ex_error = docx_error result,
             ex_text = docx_text result\<rparr>)
      else \<lparr>ex_success = False, ex_error = Some (js ''Unsupported file type''), ex_text = None\<rparr>)"

definition capitalize :: "env \<Rightarrow> jsstring \<Rightarrow> jsstring" where
  "capitalize e word = unicode_toUpperCase e (take 1 word) @ unicode_toLowerCase e (drop 1 word)"

definition generateResumeTitle :: "env \<Rightarrow> jsstring \<Rightarrow> jsstring" where
  "generateResumeTitle e filename =
     (let nameWithoutExt =
            (if endsWith (toLowerCase filename) (js ''.pdf'')
             then take (length filename - 4) filename
             else if endsWith (toLowerCase filename) (js ''.docx'')
             then take (length filename - 5) filename
             else filename);
          cleaned = map (\<lambda>c. if c = 0x5F \<or> c = 0x2D then SP else c) nameWithoutExt;
          title = join_js [SP] (map (capitalize e) (split_js [SP] cleaned))
      in if title = [] then js ''Untitled Resume'' else title)"

text \<open>
  \<^verbatim>\<open>parseResume\<close>. \<open>fileArg\<close> and \<open>titleArg\<close> are the two entries of the form data.
  The non-null assertions of the source are \<open>the\<close>. The calls on the Supabase client
  report a failure in the value they return, and the extractors catch what the parsing
  libraries throw, so nothing modelled here reaches the handler for unexpected
  exceptions that surrounds the body of the action.
\<close>

definition parseResume ::
  "env \<Rightarrow> File option \<Rightarrow> jsstring option \<Rightarrow> world \<Rightarrow> ParseResumeResult \<times> world" where
  "parseResume e fileArg titleArg w =
     (case fileArg of
        None \<Rightarrow> (parse_failure (Some (js ''No file provided'')), w)
      | Some f \<Rightarrow>
         (let titleOpt = (case titleArg of None \<Rightarrow> None
                          | Some t \<Rightarrow> if t = [] then None else Some t);
              validation = validateResumeFile f in
          if \<not> valid validation then (parse_failure (verror validation), w)
          else case (if auth_error e then None else auth_user e) of
            None \<Rightarrow> (parse_failure (Some (js ''You must be logged in to upload a resume'')), w)
          | Some userId \<Rightarrow>
             (case uploadResumeFile e f userId w of (uploadResult, w1) \<Rightarrow>
               if \<not> up_success uploadResult then (parse_failure (up_error uploadResult), w1)
               else let extractionResult = extractTextFromFile e f in
                 if \<not> ex_success extractionResult
                 then (parse_failure (ex_error extractionResult),
                       storage_remove e [the (up_filePath uploadResult)] w1)
                 else
                  (let fileType = (if ftype f = PDF_MIME then js ''pdf'' else js ''docx'');
                       resumeTitle = (case titleOpt of Some t \<Rightarrow> t
                                      | None \<Rightarrow> generateResumeTitle e (fname f));
                       resumeData = \<lparr>user_id = userId, title = resumeTitle,
                                     file_url = the (up_fileUrl uploadResult),
                                     raw_text = the (ex_text extractionResult),
                                     file_size = fsize f, file_type = fileType\<rparr>
                   in case db_insert e resumeData w1 of
                        (Inl dbError, w2) \<Rightarrow>
                          (parse_failure (Some (js ''Failed to save resume to database'')),
                           storage_remove e [the (up_filePath uploadResult)] w2)
                      | (Inr resume, w2) \<Rightarrow>
                          (\<lparr>success = True, error = None,
                            data = Some \<lparr>d_resumeId = resume_id resume, d_title = title resume,
                                         d_fileUrl = file_url resume,
                                         d_textPreview = take 500 (the (ex_text extractionResult))
                                                         @ js ''...''\<rparr>\<rparr>, w2)))))"

section \<open>Deletion\<close>

definition extractFilePathFromUrl :: "jsstring \<Rightarrow> jsstring \<Rightarrow> jsstring option" where
  "extractFilePathFromUrl url userId =
     (let parts = split_js (js ''/resumes/'') url in
      if length parts = 2 then Some (parts ! 1) else None)"

record DeleteResult =
  del_success :: bool
  del_error :: "jsstring option"

text \<open>
  \<^verbatim>\<open>deleteResume\<close>. The blob is removed only when the extracted path is a non-empty
  string.
\<close>

definition deleteResume :: "env \<Rightarrow> jsstring \<Rightarrow> world \<Rightarrow> DeleteResult \<times> world" where
  "deleteResume e resumeId w =
     (case db_select_single e resumeId w of
        None \<Rightarrow> (\<lparr>del_success = False, del_error = Some (js ''Resume not found'')\<rparr>, w)
      | Some resume \<Rightarrow>
         (case auth_user e of
            None \<Rightarrow> (\<lparr>del_success = False, del_error = Some (js ''Unauthorized'')\<rparr>, w)
          | Some userId \<Rightarrow>
             if userId \<noteq> user_id resume
             then (\<lparr>del_success = False, del_error = Some (js ''Unauthorized'')\<rparr>, w)
             else let filePath = extractFilePathFromUrl (file_url resume) userId in
               case db_delete e resumeId w of (deleteError, w1) \<Rightarrow>
                 if deleteError
                 then (\<lparr>del_success = False,
                        del_error = Some (js ''Failed to delete resume'')\<rparr>, w1)
                 else (case filePath of
                         None \<Rightarrow> (\<lparr>del_success = True, del_error = None\<rparr>, w1)
                       | Some p \<Rightarrow>
                           if p = [] then (\<lparr>del_success = True, del_error = None\<rparr>, w1)
                           else (\<lparr>del_success = True, del_error = None\<rparr>,
                                 storage_remove e [p] w1))))"

text \<open>
  The sentence of the specification about the format tag, in its own words: the tag of a
  stored document agrees with what the magic bytes of its content say.
\<close>

definition tag_consistent_with_bytes :: "jsstring \<Rightarrow> bytes \<Rightarrow> bool" where
  "tag_consistent_with_bytes tag content \<longleftrightarrow>
     (if tag = js ''pdf'' then isValidPDFBuffer content
      else if tag = js ''docx'' then isValidDOCXBuffer content
      else False)"

text \<open>
  The steps of the normalizer as the specification lists them: collapsing the runs of
  spaces and of newlines, trimming every line and the whole text, and dropping the blank
  lines.
\<close>

definition collapse_runs :: "jsstring \<Rightarrow> jsstring" where
  "collapse_runs s = replace_runs 3 NL [NL, NL] (replace_runs 2 SP [SP] s)"

definition trim_lines :: "jsstring \<Rightarrow> jsstring" where
  "trim_lines s = trim (join_js [NL] (map trim (split_js [NL] s)))"

definition drop_blank_lines :: "jsstring \<Rightarrow> jsstring" where
  "drop_blank_lines s = join_js [NL] (filter (\<lambda>line. length line > 0) (split_js [NL] s))"

text \<open>
  Auxiliary notions for reasoning about the normalizer: every run of \<open>c\<close> in \<open>s\<close> is
  shorter than \<open>n\<close>; a line is trimmed; the lines left after dropping the empty ones at
  both ends.
\<close>

fun runs_below :: "nat \<Rightarrow> 'a \<Rightarrow> 'a list \<Rightarrow> bool" where
  "runs_below n c [] = True"
| "runs_below n c (x # xs) =
     (length (takeWhile (\<lambda>y. y = c) (x # xs)) < n \<and> runs_below n c xs)"

definition trimmed :: "jsstring \<Rightarrow> bool" where
  "trimmed l \<longleftrightarrow> trim l = l"

definition strip_blank_ends :: "jsstring list \<Rightarrow> jsstring list" where
  "strip_blank_ends ls = rev (dropWhile (\<lambda>l. l = []) (rev (dropWhile (\<lambda>l. l = []) ls)))"

section \<open>Example inputs\<close>

text \<open>
  Concrete collaborators, files and states on which the theorems below are instantiated.
  The sample document is a complete one-page PDF whose page shows the words
  \<^verbatim>\<open>Hello World\<close>.
\<close>

definition ascii_bytes :: "string \<Rightarrow> bytes" where
  "ascii_bytes s = map (\<lambda>c. of_nat (of_char c)) s"

definition PDF_MAGIC :: bytes where
  "PDF_MAGIC = [0x25, 0x50, 0x44, 0x46, 0x2D]"

definition sample_pdf_bytes :: bytes where
  "sample_pdf_bytes = ascii_bytes (
        ''%PDF-1.4\<newline>'' @
        ''1 0 obj\<newline>'' @
        ''<< /Type /Catalog /Pages 2 0 R >>\<newline>'' @
        ''endobj\<newline>'' @
        ''2 0 obj\<newline>'' @
        ''<< /Type /Pages /Kids [3 0 R] /Count 1 >>\<newline>'' @
        ''endobj\<newline>'' @
        ''3 0 obj\<newline>'' @
        ''<< /Type /Page /Parent 2 0 R /MediaBox [0 0 300 144] /Contents 4 0 R /Resources << /Font << /F1 5 0 R >> >> >>\<newline>'' @
        ''endobj\<newline>'' @
        ''4 0 obj\<newline>'' @
        ''<< /Length 43 >>\<newline>'' @
        ''stream\<newline>'' @
        ''BT /F1 18 Tf 20 100 Td (Hello World) Tj ET\<newline>'' @
        ''endstream\<newline>'' @
        ''endobj\<newline>'' @
        ''5 0 obj\<newline>'' @
        ''<< /Type /Font /Subtype /Type1 /BaseFont /Helvetica >>\<newline>'' @
        ''endobj\<newline>'' @
        ''xref\<newline>'' @
        ''0 6\<newline>'' @
        ''0000000000 65535 f \<newline>'' @
        ''0000000009 00000 n \<newline>'' @
        ''0000000058 00000 n \<newline>'' @
        ''0000000115 00000 n \<newline>'' @
        ''0000000241 00000 n \<newline>'' @
        ''0000000333 00000 n \<newline>'' @
        ''trailer\<newline>'' @
        ''<< /Size 6 /Root 1 0 R >>\<newline>'' @
        ''startxref\<newline>'' @
        ''403\<newline>'' @
        ''%%EOF\<newline>'')"

text \<open>
  Two short buffers that are no PDF documents: the word \<^verbatim>\<open>hello\<close> and the bare
  header \<^verbatim>\<open>%PDF-1.4\<close>.
\<close>

definition garbage_bytes :: bytes where
  "garbage_bytes = [0x68, 0x65, 0x6C, 0x6C, 0x6F]"

definition bare_header_bytes :: bytes where
  "bare_header_bytes = PDF_MAGIC @ [0x31, 0x2E, 0x34]"

text \<open>
  A stand-in for \<^verbatim>\<open>pdf-parse\<close>, meant for the three buffers used below. It reads
  the sample document as one page with the words \<^verbatim>\<open>Hello World\<close>; the exact text
  the library returns for that page matters to no property below. On the two short
  buffers, as on everything else that is not the sample document, \<^verbatim>\<open>getText\<close>
  throws the error the library has for an invalid structure.
\<close>

definition sample_pdf_parser :: "bytes \<Rightarrow> pdf_parser" where
  "sample_pdf_parser content =
     (if content = sample_pdf_bytes
      then \<lparr>getText = Inr (js ''Hello World'', 1), getInfo = Inr [], destroy = None\<rparr>
      else \<lparr>getText = Inl (JsError (js ''Invalid PDF structure.'')),
            getInfo = Inl (JsError (js ''Invalid PDF structure.'')), destroy = None\<rparr>)"

definition sample_mammoth :: "bytes \<Rightarrow> js_exn + mammoth_result" where
  "sample_mammoth content =
     Inl (JsError (js ''Can't find end of central directory : is this a zip file ?''))"

text \<open>
  The case mappings on the letters A-Z and a-z, which is what the engine's mappings do
  on the ASCII file names of the examples.
\<close>

definition ascii_toUpperCase :: "jsstring \<Rightarrow> jsstring" where
  "ascii_toUpperCase s = map (\<lambda>c. if 0x61 \<le> c \<and> c \<le> 0x7A then c - 0x20 else c) s"

definition sample_env :: env where
  "sample_env =
     \<lparr>auth_user = Some (js ''user-a''), auth_error = False,
      now_iso = js ''2026-01-09T10:20:30.123Z'',
      public_url = (\<lambda>path. js ''https://p.supabase.co/storage/v1/object/public/resumes/'' @ path),
      storage_upload_error = None, storage_remove_error = False,
      db_insert_error = None, db_new_id = js ''r-1'', db_delete_error = False,
      PDFParse = sample_pdf_parser, extractRawText = sample_mammoth,
      unicode_toUpperCase = ascii_toUpperCase, unicode_toLowerCase = toLowerCase\<rparr>"

definition failing_db_env :: env where
  "failing_db_env = sample_env\<lparr>db_insert_error := Some (js ''connection refused'')\<rparr>"

definition failing_db_and_storage_env :: env where
  "failing_db_and_storage_env = failing_db_env\<lparr>storage_remove_error := True\<rparr>"


definition empty_world :: world where
  "empty_world = \<lparr>blobs = Map.empty, resumes = Map.empty, calls = []\<rparr>"

definition sample_pdf_file :: File where
  "sample_pdf_file = \<lparr>fname = js ''my cv.pdf'', ftype = PDF_MIME, fbytes = sample_pdf_bytes\<rparr>"

definition mislabelled_pdf_file :: File where
  "mislabelled_pdf_file = \<lparr>fname = js ''cv.pdf'', ftype = DOCX_MIME, fbytes = sample_pdf_bytes\<rparr>"

definition pdf_named_docx_file :: File where
  "pdf_named_docx_file = \<lparr>fname = js ''cv.docx'', ftype = PDF_MIME, fbytes = sample_pdf_bytes\<rparr>"





text \<open>
  Texts for the normalizer: lines ending in CR LF, a tab next to a space, a tab between
  two letters, two tabs between two letters on the first of two lines, and a text with
  blank lines and runs of spaces but no tab.
\<close>

definition crlf_text :: jsstring where
  "crlf_text = [0x61, 0x0D, NL, 0x0D, NL, 0x0D, NL, 0x62]"

definition tab_space_text :: jsstring where
  "tab_space_text = [0x61, TAB, SP, 0x62]"

definition tab_text :: jsstring where
  "tab_text = [0x61, TAB, 0x62]"

definition two_tabs_text :: jsstring where
  "two_tabs_text = [0x61, TAB, TAB, 0x62, NL, 0x63]"

definition blank_lines_text :: jsstring where
  "blank_lines_text = [SP, 0x61, SP, SP, 0x62, NL, NL, NL, NL, 0x63, SP]"

section \<open>Properties of the string operations\<close>

declare replace_runs.simps [simp del] split_js.simps [simp del] show_nat.simps [simp del]
  utf8_decode_from.simps [simp del]

subsection \<open>Splitting at a single character\<close>

lemma split_char_Nil [simp]: "split_js [c] [] = [[]]"
  by (simp add: split_js.simps)

lemma split_char_ne [simp]: "split_js [c] s \<noteq> []"
  by (induction s) (auto simp: split_js.simps split: list.splits)

lemma split_char_Cons:
  "split_js [c] (x # xs) =
     (if x = c then [] # split_js [c] xs
      else (x # hd (split_js [c] xs)) # tl (split_js [c] xs))"
proof -
  obtain p ps where "split_js [c] xs = p # ps"
    using split_char_ne [of c xs] by (cases "split_js [c] xs") auto
  then show ?thesis
    by (simp add: split_js.simps(2) [of "[c]" x xs])
qed

lemma join_split_char: "join_js [c] (split_js [c] s) = s"
proof (induction s)
  case Nil
  show ?case by simp
next
  case (Cons x xs)
  obtain p ps where ps: "split_js [c] xs = p # ps"
    using split_char_ne [of c xs] by (cases "split_js [c] xs") auto
  show ?case
    using Cons ps by (cases ps) (auto simp: split_char_Cons)
qed

lemma split_char_lines_free: "l \<in> set (split_js [c] s) \<Longrightarrow> c \<notin> set l"
proof (induction s arbitrary: l)
  case Nil
  then show ?case by simp
next
  case (Cons x xs)
  obtain p ps where ps: "split_js [c] xs = p # ps"
    using split_char_ne [of c xs] by (cases "split_js [c] xs") auto
  from Cons.prems ps Cons.IH show ?case
    by (auto simp: split_char_Cons split: if_splits)
qed

lemma split_char_append:
  "split_js [c] (a @ c # b) = split_js [c] a @ split_js [c] b"
proof (induction a)
  case Nil
  show ?case by (simp add: split_char_Cons)
next
  case (Cons x a)
  obtain p ps where ps: "split_js [c] a = p # ps"
    using split_char_ne [of c a] by (cases "split_js [c] a") auto
  show ?case
    using Cons ps by (simp add: split_char_Cons)
qed

lemma split_char_free: "c \<notin> set l \<Longrightarrow> split_js [c] l = [l]"
  by (induction l) (auto simp: split_char_Cons)

lemma join_Cons: "ls \<noteq> [] \<Longrightarrow> join_js sep (l # ls) = l @ sep @ join_js sep ls"
  by (cases ls) auto

lemma split_join_char:
  "ls \<noteq> [] \<Longrightarrow> \<forall>l\<in>set ls. c \<notin> set l \<Longrightarrow> split_js [c] (join_js [c] ls) = ls"
proof (induction ls)
  case Nil
  then show ?case by simp
next
  case (Cons l ls)
  show ?case
  proof (cases "ls = []")
    case True
    with Cons.prems show ?thesis by (simp add: split_char_free)
  next
    case False
    with Cons show ?thesis
      by (simp add: join_Cons split_char_append split_char_free)
  qed
qed

lemma join_snoc:
  "join_js sep (ls @ [l]) = (if ls = [] then l else join_js sep ls @ sep @ l)"
  by (induction sep ls rule: join_js.induct) auto

lemma rev_join_char: "rev (join_js [c] ls) = join_js [c] (map rev (rev ls))"
proof (induction ls)
  case Nil
  show ?case by simp
next
  case (Cons l ls)
  then show ?case
    by (cases "ls = []") (simp_all add: join_Cons join_snoc)
qed

subsection \<open>Replacing runs\<close>

lemma replace_runs_Nil [simp]: "replace_runs n c r [] = []"
  by (simp add: replace_runs.simps)

lemma replace_runs_other [simp]:
  "x \<noteq> c \<Longrightarrow> replace_runs n c r (x # xs) = x # replace_runs n c r xs"
  by (simp add: replace_runs.simps)

lemma replace_runs_hit:
  "n \<le> Suc (length (takeWhile (\<lambda>y. y = c) xs)) \<Longrightarrow>
   replace_runs n c r (c # xs) = r @ replace_runs n c r (dropWhile (\<lambda>y. y = c) xs)"
  by (simp add: replace_runs.simps)

lemma replace_runs_miss:
  "\<not> n \<le> Suc (length (takeWhile (\<lambda>y. y = c) xs)) \<Longrightarrow>
   replace_runs n c r (c # xs) = c # replace_runs n c r xs"
  by (simp add: replace_runs.simps)

lemma runs_induct [case_names Nil Hit Miss Other]:
  assumes "P []"
    and "\<And>xs. n \<le> Suc (length (takeWhile (\<lambda>y. y = c) xs)) \<Longrightarrow>
           P (dropWhile (\<lambda>y. y = c) xs) \<Longrightarrow> P (c # xs)"
    and "\<And>xs. \<not> n \<le> Suc (length (takeWhile (\<lambda>y. y = c) xs)) \<Longrightarrow> P xs \<Longrightarrow> P (c # xs)"
    and "\<And>x xs. x \<noteq> c \<Longrightarrow> P xs \<Longrightarrow> P (x # xs)"
  shows "P s"
proof (induction s rule: length_induct)
  case (1 s)
  show ?case
  proof (cases s)
    case Nil
    with assms(1) show ?thesis by simp
  next
    case (Cons x xs)
    have le: "length (dropWhile (\<lambda>y. y = c) xs) < length s"
      using Cons length_dropWhile_le [of "\<lambda>y. y = c" xs] by simp
    show ?thesis
    proof (cases "x = c")
      case True
      show ?thesis
      proof (cases "n \<le> Suc (length (takeWhile (\<lambda>y. y = c) xs))")
        case True
        with \<open>x = c\<close> Cons 1 le assms(2) show ?thesis by blast
      next
        case False
        with \<open>x = c\<close> Cons 1 assms(3) show ?thesis by simp
      qed
    next
      case False
      with Cons 1 assms(4) show ?thesis by simp
    qed
  qed
qed

lemma replace_runs_absent: "c \<notin> set s \<Longrightarrow> replace_runs n c r s = s"
  by (induction s) auto

lemma dropWhile_sep: "\<not> P d \<Longrightarrow> dropWhile P (xs @ d # b) = dropWhile P xs @ d # b"
  by (induction xs) auto

lemma takeWhile_sep: "\<not> P d \<Longrightarrow> takeWhile P (xs @ d # b) = takeWhile P xs"
  by (induction xs) auto

lemma replace_runs_sep:
  assumes "d \<noteq> c"
  shows "replace_runs n c r (a @ d # b) = replace_runs n c r a @ d # replace_runs n c r b"
proof (induction a rule: runs_induct [where n = n and c = c])
  case Nil
  from assms show ?case by simp
next
  case (Hit xs)
  from Hit assms show ?case
    by (simp add: replace_runs_hit takeWhile_sep dropWhile_sep)
next
  case (Miss xs)
  from Miss assms show ?case
    by (simp add: replace_runs_miss takeWhile_sep)
next
  case (Other x xs)
  then show ?case by simp
qed

lemma takeWhile_dropWhile_same [simp]: "takeWhile P (dropWhile P xs) = []"
  by (induction xs) auto

lemma takeWhile_replicate_app:
  "takeWhile (\<lambda>y. y = c) (replicate m c @ t) = replicate m c @ takeWhile (\<lambda>y. y = c) t"
  by (induction m) auto

lemma replace_runs_head_run:
  "takeWhile (\<lambda>y. y = c) (replace_runs n c (replicate m c) s) =
     (if takeWhile (\<lambda>y. y = c) s \<noteq> [] \<and> n \<le> length (takeWhile (\<lambda>y. y = c) s)
      then replicate m c else takeWhile (\<lambda>y. y = c) s)"
proof (induction s rule: runs_induct [where n = n and c = c])
  case Nil
  show ?case by simp
next
  case (Hit xs)
  then show ?case
    by (simp add: replace_runs_hit takeWhile_replicate_app)
next
  case (Miss xs)
  then show ?case
    by (simp add: replace_runs_miss split: if_splits)
next
  case (Other x xs)
  then show ?case by simp
qed

lemma runs_below_fixed: "runs_below n c s \<Longrightarrow> replace_runs n c r s = s"
  by (induction s) (auto simp: replace_runs.simps)

lemma runs_below_replicate_app:
  "m + length (takeWhile (\<lambda>y. y = c) t) < n \<Longrightarrow> runs_below n c t \<Longrightarrow>
   runs_below n c (replicate m c @ t)"
  by (induction m) (auto simp: takeWhile_replicate_app)

lemma runs_below_replace_runs:
  assumes "m < n"
  shows "runs_below n c (replace_runs n c (replicate m c) s)"
proof (induction s rule: runs_induct [where n = n and c = c])
  case Nil
  show ?case by simp
next
  case (Hit xs)
  have "takeWhile (\<lambda>y. y = c) (replace_runs n c (replicate m c) (dropWhile (\<lambda>y. y = c) xs)) = []"
    by (simp add: replace_runs_head_run)
  with Hit assms show ?case
    by (simp add: replace_runs_hit runs_below_replicate_app)
next
  case (Miss xs)
  have "takeWhile (\<lambda>y. y = c) (replace_runs n c (replicate m c) xs) = takeWhile (\<lambda>y. y = c) xs"
    using Miss(1) by (simp add: replace_runs_head_run)
  with Miss show ?case
    by (simp add: replace_runs_miss)
next
  case (Other x xs)
  with assms show ?case by simp
qed

lemma replace_runs_idem:
  "m < n \<Longrightarrow> replace_runs n c (replicate m c) (replace_runs n c (replicate m c) s)
     = replace_runs n c (replicate m c) s"
  by (simp add: runs_below_fixed runs_below_replace_runs)

lemma runs_below_appendD:
  "runs_below n c (a @ b) \<Longrightarrow> runs_below n c a \<and> runs_below n c b"
proof (induction a)
  case Nil
  then show ?case by simp
next
  case (Cons x a)
  have "length (takeWhile (\<lambda>y. y = c) (x # a)) \<le> length (takeWhile (\<lambda>y. y = c) (x # a @ b))"
    by (induction a) auto
  with Cons show ?case by auto
qed

lemma runs_below_sep:
  "e \<noteq> d \<Longrightarrow> 0 < n \<Longrightarrow>
   runs_below n d (a @ e # b) \<longleftrightarrow> runs_below n d a \<and> runs_below n d b"
  by (induction a) (auto simp: takeWhile_sep)

lemma runs_below_join:
  "c \<noteq> d \<Longrightarrow> 0 < n \<Longrightarrow>
   runs_below n d (join_js [c] ls) \<longleftrightarrow> (\<forall>l\<in>set ls. runs_below n d l)"
proof (induction ls)
  case Nil
  show ?case by simp
next
  case (Cons l ls)
  then show ?case
    by (cases "ls = []") (auto simp: join_Cons runs_below_sep)
qed

lemma runs_below_mono: "runs_below n c s \<Longrightarrow> n \<le> n' \<Longrightarrow> runs_below n' c s"
  by (induction s) auto

lemma replace_runs_eq_Nil: "r \<noteq> [] \<Longrightarrow> replace_runs n c r s = [] \<longleftrightarrow> s = []"
  by (cases s) (auto simp: replace_runs.simps)

lemma replace_runs_set: "set (replace_runs n c r s) \<subseteq> set s \<union> set r"
proof (induction s rule: runs_induct [where n = n and c = c])
  case Nil
  show ?case by simp
next
  case (Hit xs)
  have "set (dropWhile (\<lambda>y. y = c) xs) \<subseteq> set xs"
    by (simp add: set_dropWhileD subsetI)
  with Hit show ?case
    by (auto simp: replace_runs_hit)
next
  case (Miss xs)
  then show ?case by (auto simp: replace_runs_miss)
next
  case (Other x xs)
  then show ?case by auto
qed

lemma takeWhile_other_replace_runs:
  assumes "d \<noteq> c" "0 < m"
  shows "takeWhile (\<lambda>y. y = d) (replace_runs n c (replicate m c) s) = takeWhile (\<lambda>y. y = d) s"
proof (induction s rule: runs_induct [where n = n and c = c])
  case Nil
  show ?case by simp
next
  case (Hit xs)
  obtain m' where "m = Suc m'" using assms(2) by (cases m) auto
  with Hit assms(1) show ?case
    by (simp add: replace_runs_hit)
next
  case (Miss xs)
  with assms(1) show ?case by (simp add: replace_runs_miss)
next
  case (Other x xs)
  then show ?case by simp
qed

lemma runs_below_other_replicate:
  "d \<noteq> c \<Longrightarrow> 0 < n' \<Longrightarrow> runs_below n' d t \<Longrightarrow> runs_below n' d (replicate m c @ t)"
  by (induction m) auto

lemma runs_below_dropWhile: "runs_below n d xs \<Longrightarrow> runs_below n d (dropWhile P xs)"
  using runs_below_appendD [of n d "takeWhile P xs" "dropWhile P xs"] by simp

lemma runs_below_other_replace_runs:
  assumes "d \<noteq> c" "0 < m"
  shows "runs_below n' d s \<Longrightarrow> runs_below n' d (replace_runs n c (replicate m c) s)"
proof (induction s rule: runs_induct [where n = n and c = c])
  case Nil
  show ?case by simp
next
  case (Hit xs)
  from Hit(3) have pos: "0 < n'" by auto
  from Hit(3) have "runs_below n' d (dropWhile (\<lambda>y. y = c) xs)"
    by (simp add: runs_below_dropWhile)
  with Hit assms pos show ?case
    by (simp add: replace_runs_hit runs_below_other_replicate)
next
  case (Miss xs)
  with assms show ?case by (simp add: replace_runs_miss)
next
  case (Other x xs)
  have "takeWhile (\<lambda>y. y = d) (replace_runs n c (replicate m c) (x # xs))
      = takeWhile (\<lambda>y. y = d) (x # xs)"
    using assms by (rule takeWhile_other_replace_runs)
  with Other show ?case by simp
qed

subsection \<open>Lines after collapsing runs of the separator\<close>

lemma split_char_replicate:
  "split_js [c] (replicate k c @ t) = replicate k [] @ split_js [c] t"
  by (induction k) (auto simp: split_char_Cons)

lemma takeWhile_eq_replicate:
  "takeWhile (\<lambda>y. y = c) xs = replicate (length (takeWhile (\<lambda>y. y = c) xs)) c"
  by (induction xs) auto

lemma split_char_run:
  "split_js [c] xs =
     replicate (length (takeWhile (\<lambda>y. y = c) xs)) [] @ split_js [c] (dropWhile (\<lambda>y. y = c) xs)"
proof -
  have "xs = replicate (length (takeWhile (\<lambda>y. y = c) xs)) c @ dropWhile (\<lambda>y. y = c) xs"
    using takeWhile_eq_replicate [of c xs] takeWhile_dropWhile_id [of "\<lambda>y. y = c" xs] by simp
  then show ?thesis
    using split_char_replicate [of c "length (takeWhile (\<lambda>y. y = c) xs)" "dropWhile (\<lambda>y. y = c) xs"]
    by simp
qed

lemma split_replace_runs_aux:
  assumes "0 < m" "m < n"
  shows "hd (split_js [c] (replace_runs n c (replicate m c) s)) = hd (split_js [c] s) \<and>
         set (tl (split_js [c] (replace_runs n c (replicate m c) s))) \<subseteq> set (tl (split_js [c] s))"
proof (induction s rule: runs_induct [where n = n and c = c])
  case Nil
  show ?case by simp
next
  case (Hit xs)
  let ?k = "length (takeWhile (\<lambda>y. y = c) xs)"
  let ?rest = "dropWhile (\<lambda>y. y = c) xs"
  let ?A = "split_js [c] (replace_runs n c (replicate m c) ?rest)"
  let ?B = "split_js [c] ?rest"
  obtain m' where m': "m = Suc m'" using assms(1) by (cases m) auto
  have A: "split_js [c] (replace_runs n c (replicate m c) (c # xs)) = [] # replicate m' [] @ ?A"
    using Hit(1) m' by (simp add: replace_runs_hit split_char_replicate split_char_Cons)
  have B: "split_js [c] (c # xs) = [] # replicate ?k [] @ ?B"
    using split_char_run [of c xs] by (simp add: split_char_Cons)
  have sub: "set ?A \<subseteq> set ?B"
  proof -
    have "set ?A = insert (hd ?A) (set (tl ?A))"
      by (cases ?A) auto
    moreover have "set ?B = insert (hd ?B) (set (tl ?B))"
      by (cases ?B) auto
    ultimately show ?thesis using Hit(2) by auto
  qed
  have "0 < m' \<Longrightarrow> replicate ?k ([]::'a list) \<noteq> []"
    using Hit(1) assms(2) m' by (cases "takeWhile (\<lambda>y. y = c) xs") auto
  then have "set (replicate m' ([]::'a list)) \<subseteq> set (replicate ?k [])"
    by (cases m') auto
  with sub show ?case unfolding A B by auto
next
  case (Miss xs)
  let ?A = "split_js [c] (replace_runs n c (replicate m c) xs)"
  let ?B = "split_js [c] xs"
  have "set ?A = insert (hd ?A) (set (tl ?A))"
    by (cases ?A) auto
  moreover have "set ?B = insert (hd ?B) (set (tl ?B))"
    by (cases ?B) auto
  ultimately show ?case
    using Miss by (auto simp: replace_runs_miss split_char_Cons)
next
  case (Other x xs)
  then show ?case by (simp add: split_char_Cons)
qed

lemma split_replace_runs_subset:
  assumes "0 < m" "m < n"
  shows "set (split_js [c] (replace_runs n c (replicate m c) s)) \<subseteq> set (split_js [c] s)"
proof -
  let ?A = "split_js [c] (replace_runs n c (replicate m c) s)"
  let ?B = "split_js [c] s"
  have "set ?A = insert (hd ?A) (set (tl ?A))"
    by (cases ?A) auto
  moreover have "set ?B = insert (hd ?B) (set (tl ?B))"
    by (cases ?B) auto
  ultimately show ?thesis
    using split_replace_runs_aux [OF assms, of c s] by auto
qed

subsection \<open>Trimming\<close>

lemma isWhiteSpace_SP [simp]: "isWhiteSpace SP"
  and isWhiteSpace_NL [simp]: "isWhiteSpace NL"
  and isWhiteSpace_TAB [simp]: "isWhiteSpace TAB"
  by (simp_all add: isWhiteSpace_def)

lemma trim_Nil [simp]: "trim [] = []"
  by (simp add: trim_def)

lemma trimmed_iff: "trimmed l \<longleftrightarrow> l = [] \<or> (\<not> isWhiteSpace (hd l) \<and> \<not> isWhiteSpace (last l))"
proof (cases "l = []")
  case True
  then show ?thesis by (simp add: trimmed_def)
next
  case False
  show ?thesis
  proof
    assume "trimmed l"
    then have eq: "rev (dropWhile isWhiteSpace (rev (dropWhile isWhiteSpace l))) = l"
      by (simp add: trimmed_def trim_def)
    have "length l = length (dropWhile isWhiteSpace (rev (dropWhile isWhiteSpace l)))"
      using arg_cong [OF eq, of length] by simp
    also have "\<dots> \<le> length (dropWhile isWhiteSpace l)"
      using length_dropWhile_le [of isWhiteSpace "rev (dropWhile isWhiteSpace l)"] by simp
    finally have "length (dropWhile isWhiteSpace l) = length l"
      using length_dropWhile_le [of isWhiteSpace l] by simp
    then have d1: "dropWhile isWhiteSpace l = l"
      by (metis append_self_conv2 length_append add_cancel_right_left length_0_conv
          takeWhile_dropWhile_id)
    with eq have "dropWhile isWhiteSpace (rev l) = rev l"
      by (metis rev_rev_ident)
    with d1 False show "l = [] \<or> (\<not> isWhiteSpace (hd l) \<and> \<not> isWhiteSpace (last l))"
      by (simp add: dropWhile_eq_self_iff hd_rev)
  next
    assume "l = [] \<or> (\<not> isWhiteSpace (hd l) \<and> \<not> isWhiteSpace (last l))"
    with False have h: "\<not> isWhiteSpace (hd l)" and e: "\<not> isWhiteSpace (last l)" by auto
    from h have "dropWhile isWhiteSpace l = l"
      by (simp add: dropWhile_eq_self_iff)
    moreover from e False have "dropWhile isWhiteSpace (rev l) = rev l"
      by (simp add: dropWhile_eq_self_iff hd_rev)
    ultimately show "trimmed l"
      by (simp add: trimmed_def trim_def)
  qed
qed

lemma trimmed_trim [simp]: "trimmed (trim s)"
proof -
  let ?t = "dropWhile isWhiteSpace s"
  let ?u = "dropWhile isWhiteSpace (rev ?t)"
  show ?thesis
  proof (cases "?u = []")
    case True
    then show ?thesis by (simp add: trim_def trimmed_iff)
  next
    case False
    have t: "?t \<noteq> []"
    proof
      assume "?t = []"
      then have "?u = []" by (simp only: rev.simps dropWhile.simps)
      with False show False by blast
    qed
    have "\<not> isWhiteSpace (hd ?u)" using False by (rule hd_dropWhile)
    moreover have "last ?u = last (rev ?t)"
      using False by (metis last_appendR takeWhile_dropWhile_id)
    then have "last ?u = hd ?t" using t by (simp add: last_rev)
    moreover have "\<not> isWhiteSpace (hd ?t)" using t by (rule hd_dropWhile)
    ultimately show ?thesis
      using False by (simp add: trim_def trimmed_iff hd_rev last_rev)
  qed
qed

lemma trim_trim [simp]: "trim (trim s) = trim s"
  using trimmed_trim [of s] by (simp add: trimmed_def)

lemma trimmed_rev: "trimmed l \<Longrightarrow> trimmed (rev l)"
  by (auto simp: trimmed_iff hd_rev last_rev)

lemma trimmed_Nil [simp]: "trimmed []"
  by (simp add: trimmed_iff)

lemma trim_decomp:
  "\<exists>a b. s = a @ trim s @ b"
proof -
  let ?t = "dropWhile isWhiteSpace s"
  have "rev ?t = takeWhile isWhiteSpace (rev ?t) @ dropWhile isWhiteSpace (rev ?t)" by simp
  then have "?t = trim s @ rev (takeWhile isWhiteSpace (rev ?t))"
    unfolding trim_def by (metis rev_append rev_rev_ident)
  moreover have "s = takeWhile isWhiteSpace s @ ?t" by simp
  ultimately show ?thesis by metis
qed

lemma runs_below_trim: "runs_below n c l \<Longrightarrow> runs_below n c (trim l)"
proof -
  assume a: "runs_below n c l"
  obtain x y where "l = x @ trim l @ y" using trim_decomp by blast
  with a show ?thesis
    by (metis runs_below_appendD)
qed

lemma set_trim: "set (trim l) \<subseteq> set l"
proof -
  obtain x y where "l = x @ trim l @ y" using trim_decomp by blast
  then have "set l = set x \<union> set (trim l) \<union> set y" by (metis set_append Un_assoc)
  then show ?thesis by auto
qed

lemma trimmed_replace_runs:
  assumes "isWhiteSpace c" "r \<noteq> []" "trimmed l"
  shows "trimmed (replace_runs n c r l)"
proof (cases "l = []")
  case True
  then show ?thesis by simp
next
  case False
  with assms(3) have h: "\<not> isWhiteSpace (hd l)" and e: "\<not> isWhiteSpace (last l)"
    by (auto simp: trimmed_iff)
  from h assms(1) have hc: "hd l \<noteq> c" by auto
  from e assms(1) have ec: "last l \<noteq> c" by auto
  have "l = hd l # tl l" using False by simp
  then have 1: "hd (replace_runs n c r l) = hd l"
    using hc by (metis list.sel(1) replace_runs_other)
  have "l = butlast l @ last l # []" using False by simp
  then have "replace_runs n c r l = replace_runs n c r (butlast l) @ [last l]"
    using replace_runs_sep [OF ec, of n r "butlast l" "[]"] by simp
  then have 2: "last (replace_runs n c r l) = last l" by simp
  from 1 2 h e show ?thesis by (simp add: trimmed_iff)
qed

subsection \<open>Trimming joined lines\<close>

lemma hd_join: "l \<noteq> [] \<Longrightarrow> hd (join_js sep (l # ls)) = hd l"
  by (cases ls) auto

lemma dropWhile_join_trimmed:
  "\<forall>l\<in>set ls. trimmed l \<Longrightarrow>
   dropWhile isWhiteSpace (join_js [NL] ls) = join_js [NL] (dropWhile (\<lambda>l. l = []) ls)"
proof (induction ls)
  case Nil
  show ?case by simp
next
  case (Cons l ls)
  show ?case
  proof (cases "l = []")
    case True
    with Cons show ?thesis
      by (cases "ls = []") (simp_all add: join_Cons)
  next
    case False
    with Cons.prems have "\<not> isWhiteSpace (hd l)" by (auto simp: trimmed_iff)
    moreover have "join_js [NL] (l # ls) \<noteq> []" using False by (cases ls) auto
    ultimately have "dropWhile isWhiteSpace (join_js [NL] (l # ls)) = join_js [NL] (l # ls)"
      using False by (simp add: dropWhile_eq_self_iff hd_join)
    with False show ?thesis by simp
  qed
qed

lemma trim_join_trimmed:
  assumes "\<forall>l\<in>set ls. trimmed l"
  shows "trim (join_js [NL] ls) = join_js [NL] (strip_blank_ends ls)"
proof -
  let ?E = "\<lambda>l::jsstring. l = []"
  let ?l1 = "dropWhile ?E ls"
  have t1: "\<forall>l\<in>set (map rev (rev ?l1)). trimmed l"
    using assms by (auto dest: set_dropWhileD simp: trimmed_rev)
  have "trim (join_js [NL] ls) = rev (dropWhile isWhiteSpace (rev (join_js [NL] ?l1)))"
    using assms by (simp add: trim_def dropWhile_join_trimmed)
  also have "\<dots> = rev (dropWhile isWhiteSpace (join_js [NL] (map rev (rev ?l1))))"
    by (simp add: rev_join_char)
  also have "\<dots> = rev (join_js [NL] (dropWhile ?E (map rev (rev ?l1))))"
    using t1 by (simp only: dropWhile_join_trimmed)
  also have "\<dots> = join_js [NL] (map rev (rev (dropWhile ?E (map rev (rev ?l1)))))"
    by (simp only: rev_join_char)
  also have "dropWhile ?E (map rev (rev ?l1)) = map rev (dropWhile ?E (rev ?l1))"
    by (simp add: dropWhile_map comp_def)
  also have "map rev (rev (map rev (dropWhile ?E (rev ?l1)))) = rev (dropWhile ?E (rev ?l1))"
    by (simp add: rev_map comp_def)
  finally show ?thesis by (simp add: strip_blank_ends_def)
qed

lemma set_strip_blank_ends: "set (strip_blank_ends ls) \<subseteq> set ls"
  unfolding strip_blank_ends_def
  by (metis set_dropWhileD set_rev subsetI)

lemma filter_strip_blank_ends:
  "filter (\<lambda>l. length l > 0) (strip_blank_ends ls) = filter (\<lambda>l. length l > 0) ls"
proof -
  have dw: "filter (\<lambda>l. l \<noteq> []) (dropWhile (\<lambda>l. l = []) xs) = filter (\<lambda>l. l \<noteq> []) xs"
    for xs :: "jsstring list"
    by (induction xs) auto
  have "filter (\<lambda>l. l \<noteq> []) (strip_blank_ends ls)
      = rev (filter (\<lambda>l. l \<noteq> []) (rev (dropWhile (\<lambda>l. l = []) ls)))"
    unfolding strip_blank_ends_def by (simp only: rev_filter [symmetric] dw)
  also have "\<dots> = filter (\<lambda>l. l \<noteq> []) ls"
    by (simp only: rev_filter rev_rev_ident dw)
  finally show ?thesis by simp
qed

lemma strip_blank_ends_id:
  "\<forall>l\<in>set ls. l \<noteq> [] \<Longrightarrow> strip_blank_ends ls = ls"
proof -
  assume a: "\<forall>l\<in>set ls. l \<noteq> []"
  have dw: "dropWhile (\<lambda>l. l = []) xs = xs" if "\<forall>l\<in>set xs. l \<noteq> []" for xs :: "jsstring list"
    using that by (cases xs) auto
  show ?thesis
    unfolding strip_blank_ends_def using a by (simp add: dw)
qed

subsection \<open>More on lines\<close>

lemma split_char_set: "l \<in> set (split_js [c] s) \<Longrightarrow> set l \<subseteq> set s"
proof -
  assume a: "l \<in> set (split_js [c] s)"
  have "set l \<subseteq> set (join_js [c] ls)" if "l \<in> set ls" for ls
    using that
  proof (induction ls)
    case Nil
    then show ?case by simp
  next
    case (Cons k ks)
    then show ?case by (cases "ks = []") (auto simp: join_Cons)
  qed
  from this [OF a] show ?thesis by (simp add: join_split_char)
qed

lemma set_join_char: "set (join_js [c] ls) \<subseteq> \<Union> (set ` set ls) \<union> {c}"
proof (induction ls)
  case Nil
  show ?case by simp
next
  case (Cons l ls)
  then show ?case by (cases "ls = []") (auto simp: join_Cons)
qed

lemma replace_runs_join:
  "d \<noteq> c \<Longrightarrow>
   replace_runs n c r (join_js [d] ls) = join_js [d] (map (replace_runs n c r) ls)"
proof (induction ls)
  case Nil
  show ?case by simp
next
  case (Cons l ls)
  then show ?case
    by (cases "ls = []") (simp_all add: join_Cons replace_runs_sep)
qed

lemma runs_below_absent: "c \<notin> set l \<Longrightarrow> 0 < n \<Longrightarrow> runs_below n c l"
  by (induction l) auto

lemma runs_below_absent_app:
  "c \<notin> set l \<Longrightarrow> 0 < n \<Longrightarrow> runs_below n c (l @ t) \<longleftrightarrow> runs_below n c t"
  by (induction l) auto

lemma runs_below_join_nonempty:
  "\<forall>l\<in>set ls. l \<noteq> [] \<and> c \<notin> set l \<Longrightarrow> runs_below 2 c (join_js [c] ls)"
proof (induction ls)
  case Nil
  show ?case by simp
next
  case (Cons l ls)
  show ?case
  proof (cases ls)
    case Nil
    with Cons.prems show ?thesis by (simp add: runs_below_absent)
  next
    case (Cons k ks)
    let ?t = "join_js [c] (k # ks)"
    from Cons Cons.prems have k: "k \<noteq> []" "hd k \<noteq> c"
      by (auto simp: neq_Nil_conv)
    then have "hd ?t = hd k" "?t \<noteq> []" by (cases ks; simp)+
    with k have "takeWhile (\<lambda>y. y = c) ?t = []"
      by (cases ?t) auto
    moreover have "runs_below 2 c ?t" using Cons Cons.IH Cons.prems by simp
    ultimately have "runs_below 2 c (c # ?t)" by simp
    then have "runs_below 2 c (l @ c # ?t)"
      using Cons.prems by (simp add: runs_below_absent_app)
    then show ?thesis using Cons by simp
  qed
qed

lemma replace_tabs_absent: "TAB \<notin> set s \<Longrightarrow> replace_tabs s = s"
  by (auto simp: replace_tabs_def intro: map_idI)

lemma replace_tabs_free: "TAB \<notin> set (replace_tabs s)"
  by (auto simp: replace_tabs_def)

lemma trim_join_nonempty:
  assumes "\<forall>l\<in>set ls. l \<noteq> [] \<and> trimmed l"
  shows "trim (join_js [NL] ls) = join_js [NL] ls"
  using assms by (simp add: trim_join_trimmed strip_blank_ends_id)

lemma trim_eq_Nil_free: "c \<notin> set l \<Longrightarrow> c \<notin> set (trim l)"
  using set_trim [of l] by auto

subsection \<open>The PDF path\<close>

lemma lit_SP: "[SP] = replicate (Suc 0) SP"
  and lit_NL: "[NL, NL] = replicate 2 NL"
  by (simp_all add: numeral_2_eq_2)

lemma pdf_on_normal:
  assumes "runs_below 2 SP z" "\<forall>l\<in>set (split_js [NL] z). trimmed l" "trimmed z"
  shows "cleanText_pdf z = replace_runs 3 NL [NL, NL] z"
proof -
  let ?w = "replace_runs 3 NL [NL, NL] z"
  have 1: "replace_runs 2 SP [SP] z = z" using assms(1) by (rule runs_below_fixed)
  have "set (split_js [NL] ?w) \<subseteq> set (split_js [NL] z)"
    unfolding lit_NL by (rule split_replace_runs_subset) simp_all
  with assms(2) have "\<forall>l\<in>set (split_js [NL] ?w). trim l = l"
    by (auto simp: trimmed_def)
  then have 2: "map trim (split_js [NL] ?w) = split_js [NL] ?w"
    by (simp add: map_idI)
  have "trimmed ?w" using assms(3) by (simp add: trimmed_replace_runs)
  then have 3: "trim ?w = ?w" by (simp add: trimmed_def)
  show ?thesis
    by (simp add: cleanText_pdf_def 1 2 join_split_char 3)
qed

lemma normal_collapse_NL:
  assumes "runs_below 2 SP z" "\<forall>l\<in>set (split_js [NL] z). trimmed l" "trimmed z"
  shows "runs_below 2 SP (replace_runs 3 NL [NL, NL] z)"
    and "\<forall>l\<in>set (split_js [NL] (replace_runs 3 NL [NL, NL] z)). trimmed l"
    and "trimmed (replace_runs 3 NL [NL, NL] z)"
proof -
  show "runs_below 2 SP (replace_runs 3 NL [NL, NL] z)"
    unfolding lit_NL using assms(1) by (intro runs_below_other_replace_runs) simp_all
  have "set (split_js [NL] (replace_runs 3 NL [NL, NL] z)) \<subseteq> set (split_js [NL] z)"
    unfolding lit_NL by (rule split_replace_runs_subset) simp_all
  with assms(2) show "\<forall>l\<in>set (split_js [NL] (replace_runs 3 NL [NL, NL] z)). trimmed l"
    by auto
  show "trimmed (replace_runs 3 NL [NL, NL] z)"
    using assms(3) by (simp add: trimmed_replace_runs)
qed

lemma pdf_lines:
  fixes x :: jsstring
  defines "T \<equiv> map trim (split_js [NL] (replace_runs 3 NL [NL, NL] (replace_runs 2 SP [SP] x)))"
  shows "cleanText_pdf x = join_js [NL] (strip_blank_ends T)"
    and "\<forall>l\<in>set T. trimmed l \<and> NL \<notin> set l \<and> runs_below 2 SP l"
proof -
  let ?w = "replace_runs 3 NL [NL, NL] (replace_runs 2 SP [SP] x)"
  have "runs_below 2 SP (replace_runs 2 SP [SP] x)"
    unfolding lit_SP by (rule runs_below_replace_runs) simp
  then have "runs_below 2 SP ?w"
    unfolding lit_NL by (intro runs_below_other_replace_runs) simp_all
  then have "runs_below 2 SP (join_js [NL] (split_js [NL] ?w))"
    by (simp add: join_split_char)
  then have rb: "\<forall>l\<in>set (split_js [NL] ?w). runs_below 2 SP l"
    by (simp add: runs_below_join)
  show T: "\<forall>l\<in>set T. trimmed l \<and> NL \<notin> set l \<and> runs_below 2 SP l"
    unfolding T_def using rb
    by (auto simp: runs_below_trim dest: split_char_lines_free trim_eq_Nil_free)
  then show "cleanText_pdf x = join_js [NL] (strip_blank_ends T)"
    by (simp add: cleanText_pdf_def T_def [symmetric] trim_join_trimmed)
qed

lemma pdf_normal:
  shows "runs_below 2 SP (cleanText_pdf x)"
    and "\<forall>l\<in>set (split_js [NL] (cleanText_pdf x)). trimmed l"
    and "trimmed (cleanText_pdf x)"
proof -
  define T where "T = map trim (split_js [NL] (replace_runs 3 NL [NL, NL] (replace_runs 2 SP [SP] x)))"
  have eq: "cleanText_pdf x = join_js [NL] (strip_blank_ends T)"
    and T: "\<forall>l\<in>set T. trimmed l \<and> NL \<notin> set l \<and> runs_below 2 SP l"
    unfolding T_def by (rule pdf_lines)+
  have S: "\<forall>l\<in>set (strip_blank_ends T). trimmed l \<and> NL \<notin> set l \<and> runs_below 2 SP l"
    using T set_strip_blank_ends [of T] by blast
  show "runs_below 2 SP (cleanText_pdf x)"
    unfolding eq using S by (simp add: runs_below_join)
  show "\<forall>l\<in>set (split_js [NL] (cleanText_pdf x)). trimmed l"
  proof (cases "strip_blank_ends T = []")
    case True
    then show ?thesis unfolding eq by simp
  next
    case False
    then have "split_js [NL] (join_js [NL] (strip_blank_ends T)) = strip_blank_ends T"
      using S by (simp add: split_join_char)
    then show ?thesis unfolding eq using S by simp
  qed
  show "trimmed (cleanText_pdf x)"
    by (simp add: cleanText_pdf_def)
qed

lemma pdf_twice: "cleanText_pdf (cleanText_pdf x) = replace_runs 3 NL [NL, NL] (cleanText_pdf x)"
  by (rule pdf_on_normal) (rule pdf_normal)+

subsection \<open>The DOCX path\<close>

lemma docx_lines:
  fixes x :: jsstring
  defines "Y \<equiv> filter (\<lambda>line. length line > 0) (map trim (split_js [NL]
       (replace_tabs (replace_runs 3 NL [NL, NL] (replace_runs 2 SP [SP] x)))))"
  shows "cleanText_docx x = join_js [NL] Y"
    and "\<forall>l\<in>set Y. l \<noteq> [] \<and> trimmed l \<and> NL \<notin> set l \<and> TAB \<notin> set l"
proof -
  let ?w = "replace_tabs (replace_runs 3 NL [NL, NL] (replace_runs 2 SP [SP] x))"
  have "TAB \<notin> set l" if "l \<in> set (split_js [NL] ?w)" for l
    using split_char_set [OF that] replace_tabs_free by auto
  then show Y: "\<forall>l\<in>set Y. l \<noteq> [] \<and> trimmed l \<and> NL \<notin> set l \<and> TAB \<notin> set l"
    unfolding Y_def
    by (auto dest: split_char_lines_free trim_eq_Nil_free)
  then have "trim (join_js [NL] Y) = join_js [NL] Y"
    by (intro trim_join_nonempty) blast
  then show "cleanText_docx x = join_js [NL] Y"
    unfolding cleanText_docx_def Y_def [symmetric] .
qed

lemma docx_on_lines:
  assumes "\<forall>l\<in>set Y. l \<noteq> [] \<and> trimmed l \<and> NL \<notin> set l \<and> TAB \<notin> set l"
  shows "cleanText_docx (join_js [NL] Y) = join_js [NL] (map (replace_runs 2 SP [SP]) Y)"
    and "\<forall>l\<in>set (map (replace_runs 2 SP [SP]) Y).
           l \<noteq> [] \<and> trimmed l \<and> NL \<notin> set l \<and> TAB \<notin> set l"
proof -
  let ?Y2 = "map (replace_runs 2 SP [SP]) Y"
  show G2: "\<forall>l\<in>set ?Y2. l \<noteq> [] \<and> trimmed l \<and> NL \<notin> set l \<and> TAB \<notin> set l"
  proof
    fix l assume "l \<in> set ?Y2"
    then obtain k where k: "k \<in> set Y" "l = replace_runs 2 SP [SP] k" by auto
    with assms have a: "k \<noteq> []" "trimmed k" "NL \<notin> set k" "TAB \<notin> set k" by auto
    have "set l \<subseteq> set k \<union> {SP}"
      using replace_runs_set [of 2 SP "[SP]" k] k(2) by simp
    with a show "l \<noteq> [] \<and> trimmed l \<and> NL \<notin> set l \<and> TAB \<notin> set l"
      unfolding k(2) by (auto simp: replace_runs_eq_Nil trimmed_replace_runs)
  qed
  have 1: "replace_runs 2 SP [SP] (join_js [NL] Y) = join_js [NL] ?Y2"
    by (simp add: replace_runs_join)
  have "runs_below 2 NL (join_js [NL] ?Y2)"
    using G2 by (intro runs_below_join_nonempty) blast
  then have "runs_below 3 NL (join_js [NL] ?Y2)"
    by (rule runs_below_mono) simp
  then have 2: "replace_runs 3 NL [NL, NL] (join_js [NL] ?Y2) = join_js [NL] ?Y2"
    by (rule runs_below_fixed)
  have "TAB \<notin> set (join_js [NL] ?Y2)"
    using set_join_char [of NL ?Y2] G2 by auto
  then have 3: "replace_tabs (join_js [NL] ?Y2) = join_js [NL] ?Y2"
    by (rule replace_tabs_absent)
  have 4: "filter (\<lambda>line. length line > 0) (map trim (split_js [NL] (join_js [NL] ?Y2))) = ?Y2"
  proof (cases "Y = []")
    case True
    then show ?thesis by simp
  next
    case False
    then have "split_js [NL] (join_js [NL] ?Y2) = ?Y2"
      using G2 by (simp add: split_join_char)
    moreover have "map trim ?Y2 = ?Y2"
      using G2 by (intro map_idI) (auto simp: trimmed_def)
    moreover have "filter (\<lambda>line. length line > 0) ?Y2 = ?Y2"
      using G2 by (intro filter_True) auto
    ultimately show ?thesis by (simp only:)
  qed
  have 5: "trim (join_js [NL] ?Y2) = join_js [NL] ?Y2"
    using G2 by (intro trim_join_nonempty) blast
  show "cleanText_docx (join_js [NL] Y) = join_js [NL] ?Y2"
    unfolding cleanText_docx_def 1 2 3 4 5 ..
qed

subsection \<open>How the two paths differ\<close>

lemma docx_no_tab: "TAB \<notin> set (cleanText_docx x)"
proof -
  define Y where "Y = filter (\<lambda>line. length line > 0) (map trim (split_js [NL]
       (replace_tabs (replace_runs 3 NL [NL, NL] (replace_runs 2 SP [SP] x)))))"
  have eq: "cleanText_docx x = join_js [NL] Y"
    and G: "\<forall>l\<in>set Y. l \<noteq> [] \<and> trimmed l \<and> NL \<notin> set l \<and> TAB \<notin> set l"
    unfolding Y_def by (rule docx_lines)+
  show ?thesis
    unfolding eq using set_join_char [of NL Y] G by auto
qed

lemma pdf_no_new_space:
  assumes "SP \<notin> set x"
  shows "SP \<notin> set (cleanText_pdf x)"
proof -
  let ?w = "replace_runs 3 NL [NL, NL] x"
  let ?T = "map trim (split_js [NL] ?w)"
  have 1: "replace_runs 2 SP [SP] x = x" using assms by (rule replace_runs_absent)
  have "set ?w \<subseteq> set x \<union> {NL}"
    using replace_runs_set [of 3 NL "[NL, NL]" x] by auto
  with assms have w: "SP \<notin> set ?w" by auto
  have "SP \<notin> set l" if "l \<in> set ?T" for l
  proof -
    from that obtain k where k: "k \<in> set (split_js [NL] ?w)" "l = trim k" by auto
    from split_char_set [OF k(1)] w have "SP \<notin> set k" by auto
    then show ?thesis unfolding k(2) by (rule trim_eq_Nil_free)
  qed
  then have "SP \<notin> set (join_js [NL] ?T)"
    using set_join_char [of NL ?T] by auto
  then show ?thesis
    unfolding cleanText_pdf_def 1 by (rule trim_eq_Nil_free)
qed

lemma docx_is_pdf_without_blank_lines:
  assumes "TAB \<notin> set x"
  shows "cleanText_docx x =
         join_js [NL] (filter (\<lambda>line. length line > 0) (split_js [NL] (cleanText_pdf x)))"
proof -
  let ?w = "replace_runs 3 NL [NL, NL] (replace_runs 2 SP [SP] x)"
  define T where "T = map trim (split_js [NL] ?w)"
  have "set ?w \<subseteq> set x \<union> {SP, NL}"
    using replace_runs_set [of 3 NL "[NL, NL]" "replace_runs 2 SP [SP] x"]
      replace_runs_set [of 2 SP "[SP]" x] by auto
  with assms have "TAB \<notin> set ?w" by auto
  then have 1: "replace_tabs ?w = ?w" by (rule replace_tabs_absent)
  have pdf: "cleanText_pdf x = join_js [NL] (strip_blank_ends T)"
    and T: "\<forall>l\<in>set T. trimmed l \<and> NL \<notin> set l \<and> runs_below 2 SP l"
    unfolding T_def by (rule pdf_lines)+
  have "cleanText_docx x = trim (join_js [NL] (filter (\<lambda>line. length line > 0) T))"
    by (simp add: cleanText_docx_def 1 T_def)
  also have "\<dots> = join_js [NL] (filter (\<lambda>line. length line > 0) T)"
    using T by (intro trim_join_nonempty) auto
  also have "filter (\<lambda>line. length line > 0) T
      = filter (\<lambda>line. length line > 0) (split_js [NL] (cleanText_pdf x))"
  proof (cases "strip_blank_ends T = []")
    case True
    then have "filter (\<lambda>line. length line > 0) T = []"
      using filter_strip_blank_ends [of T] by simp
    with True show ?thesis unfolding pdf by simp
  next
    case False
    have "\<forall>l\<in>set (strip_blank_ends T). NL \<notin> set l"
      using T set_strip_blank_ends [of T] by blast
    with False have "split_js [NL] (join_js [NL] (strip_blank_ends T)) = strip_blank_ends T"
      by (simp add: split_join_char)
    then show ?thesis unfolding pdf by (simp only: filter_strip_blank_ends)
  qed
  finally show ?thesis .
qed

subsection \<open>The two paths as compositions of the steps\<close>

lemma pdf_as_steps: "cleanText_pdf x = trim_lines (collapse_runs x)"
  by (simp add: cleanText_pdf_def trim_lines_def collapse_runs_def)

lemma drop_blank_trim_lines:
  "trim (join_js [NL] (filter (\<lambda>line. length line > 0) (map trim (split_js [NL] s))))
     = drop_blank_lines (trim_lines s)"
proof -
  define T where "T = map trim (split_js [NL] s)"
  have T: "\<forall>l\<in>set T. trimmed l \<and> NL \<notin> set l"
    unfolding T_def by (auto dest: split_char_lines_free trim_eq_Nil_free)
  have tl: "trim_lines s = join_js [NL] (strip_blank_ends T)"
    using T by (simp add: trim_lines_def T_def [symmetric] trim_join_trimmed)
  have a: "trim (join_js [NL] (filter (\<lambda>line. length line > 0) T))
      = join_js [NL] (filter (\<lambda>line. length line > 0) T)"
    using T by (intro trim_join_nonempty) auto
  have b: "filter (\<lambda>line. length line > 0) T
      = filter (\<lambda>line. length line > 0) (split_js [NL] (trim_lines s))"
  proof (cases "strip_blank_ends T = []")
    case True
    then have "filter (\<lambda>line. length line > 0) T = []"
      using filter_strip_blank_ends [of T] by simp
    with True show ?thesis unfolding tl by simp
  next
    case False
    have "\<forall>l\<in>set (strip_blank_ends T). NL \<notin> set l"
      using T set_strip_blank_ends [of T] by blast
    with False have "split_js [NL] (join_js [NL] (strip_blank_ends T)) = strip_blank_ends T"
      by (simp add: split_join_char)
    then show ?thesis unfolding tl by (simp only: filter_strip_blank_ends)
  qed
  have "trim (join_js [NL] (filter (\<lambda>line. length line > 0) T))
      = join_js [NL] (filter (\<lambda>line. length line > 0) (split_js [NL] (trim_lines s)))"
    unfolding b [symmetric] by (rule a)
  then show ?thesis
    unfolding T_def drop_blank_lines_def .
qed

lemma docx_as_steps:
  "cleanText_docx x = drop_blank_lines (trim_lines (replace_tabs (collapse_runs x)))"
  by (simp only: cleanText_docx_def collapse_runs_def drop_blank_trim_lines)

subsection \<open>Texts that both paths find in their normal form\<close>

lemma replace_tabs_join:
  "replace_tabs (join_js [NL] ls) = join_js [NL] (map replace_tabs ls)"
proof (induction ls)
  case Nil
  show ?case by (simp add: replace_tabs_def)
next
  case (Cons l ls)
  then show ?case by (cases ls) (simp_all add: replace_tabs_def)
qed

lemma trimmed_replace_tabs:
  "l \<noteq> [] \<Longrightarrow> trimmed l \<Longrightarrow> trimmed (replace_tabs l)"
  by (auto simp: trimmed_iff replace_tabs_def hd_map last_map)

lemma normal_text_paths:
  assumes lines: "\<forall>line\<in>set (split_js [NL] z). line \<noteq> [] \<and> trim line = line"
    and spaces: "replace_runs 2 SP [SP] z = z"
  shows "cleanText_pdf z = z" and "cleanText_docx z = replace_tabs z"
proof -
  define Y where "Y = split_js [NL] z"
  let ?Y' = "map replace_tabs Y"
  have z: "join_js [NL] Y = z"
    by (simp add: Y_def join_split_char)
  have ne: "Y \<noteq> []"
    by (simp add: Y_def)
  have Y: "\<forall>l\<in>set Y. l \<noteq> [] \<and> trimmed l \<and> NL \<notin> set l"
    using lines unfolding Y_def by (auto simp: trimmed_def dest: split_char_lines_free)
  have "runs_below 2 NL (join_js [NL] Y)"
    using Y by (intro runs_below_join_nonempty) blast
  then have "runs_below 3 NL z"
    unfolding z by (rule runs_below_mono) simp
  then have nl: "replace_runs 3 NL [NL, NL] z = z"
    by (rule runs_below_fixed)
  have "cleanText_pdf z = trim (join_js [NL] (map trim Y))"
    by (simp only: cleanText_pdf_def spaces nl Y_def)
  also have "map trim Y = Y"
    using Y by (intro map_idI) (auto simp: trimmed_def)
  also have "trim (join_js [NL] Y) = join_js [NL] Y"
    using Y by (intro trim_join_nonempty) blast
  finally show "cleanText_pdf z = z"
    unfolding z .
  have Y': "\<forall>l\<in>set ?Y'. l \<noteq> [] \<and> trimmed l \<and> NL \<notin> set l"
    using Y by (auto simp: trimmed_replace_tabs) (auto simp: replace_tabs_def)
  have rt: "replace_tabs z = join_js [NL] ?Y'"
    using replace_tabs_join [of Y] unfolding z .
  have split': "split_js [NL] (join_js [NL] ?Y') = ?Y'"
    using Y' ne by (simp add: split_join_char)
  have "cleanText_docx z =
      trim (join_js [NL] (filter (\<lambda>line. length line > 0) (map trim ?Y')))"
    by (simp only: cleanText_docx_def spaces nl rt split')
  also have "map trim ?Y' = ?Y'"
    using Y' by (intro map_idI) (auto simp: trimmed_def)
  also have "filter (\<lambda>line. length line > 0) ?Y' = ?Y'"
    using Y' by (intro filter_True) auto
  also have "trim (join_js [NL] ?Y') = join_js [NL] ?Y'"
    using Y' by (intro trim_join_nonempty) blast
  finally show "cleanText_docx z = replace_tabs z"
    unfolding rt .
qed

section \<open>Unfolding on concrete inputs\<close>

text \<open>
  What the proofs below need to know of the sample document: its length, its first
  bytes, and what the parser makes of it and of the short buffers.
\<close>

lemma sample_pdf_bytes_length: "length sample_pdf_bytes = 586"
  by (simp add: sample_pdf_bytes_def ascii_bytes_def)

lemma sample_pdf_bytes_header: "take 5 sample_pdf_bytes = PDF_MAGIC"
  by (simp add: sample_pdf_bytes_def ascii_bytes_def PDF_MAGIC_def)

lemma sample_pdf_bytes_nonempty: "sample_pdf_bytes \<noteq> []"
  using sample_pdf_bytes_length by auto

lemma short_buffers_nonempty: "garbage_bytes \<noteq> []" "bare_header_bytes \<noteq> []"
  by (simp_all add: garbage_bytes_def bare_header_bytes_def PDF_MAGIC_def)

lemma short_buffers_are_not_the_sample:
  "garbage_bytes \<noteq> sample_pdf_bytes" "bare_header_bytes \<noteq> sample_pdf_bytes"
proof -
  have "length garbage_bytes = 5" "length bare_header_bytes = 8"
    by (simp_all add: garbage_bytes_def bare_header_bytes_def PDF_MAGIC_def)
  then show "garbage_bytes \<noteq> sample_pdf_bytes" "bare_header_bytes \<noteq> sample_pdf_bytes"
    using sample_pdf_bytes_length by auto
qed

lemma sample_pdf_parser_simps:
  "sample_pdf_parser sample_pdf_bytes =
     \<lparr>getText = Inr (js ''Hello World'', 1), getInfo = Inr [], destroy = None\<rparr>"
  "sample_pdf_parser garbage_bytes =
     \<lparr>getText = Inl (JsError (js ''Invalid PDF structure.'')),
      getInfo = Inl (JsError (js ''Invalid PDF structure.'')), destroy = None\<rparr>"
  "sample_pdf_parser bare_header_bytes =
     \<lparr>getText = Inl (JsError (js ''Invalid PDF structure.'')),
      getInfo = Inl (JsError (js ''Invalid PDF structure.'')), destroy = None\<rparr>"
  by (simp_all add: sample_pdf_parser_def short_buffers_are_not_the_sample)

lemma sample_pdf_bytes_sniffed:
  "isValidPDFBuffer sample_pdf_bytes" "\<not> isValidDOCXBuffer sample_pdf_bytes"
proof -
  show "isValidPDFBuffer sample_pdf_bytes"
    by (simp add: isValidPDFBuffer_def sample_pdf_bytes_header PDF_MAGIC_def utf8_toString_def
        utf8_decode_from.simps js_def)
  have "take 2 sample_pdf_bytes = take 2 (take 5 sample_pdf_bytes)"
    by simp
  then show "\<not> isValidDOCXBuffer sample_pdf_bytes"
    by (simp add: isValidDOCXBuffer_def nth_opt_def sample_pdf_bytes_header PDF_MAGIC_def)
qed

lemmas eval_defs = sample_env_def sample_pdf_file_def sample_pdf_bytes_length
  sample_pdf_bytes_nonempty sample_pdf_parser_simps sample_mammoth_def empty_world_def
  js_def PDF_MIME_def DOCX_MIME_def

lemmas validate_defs = validateResumeFile_def validateFileNotEmpty_def validateFileType_def
  validateFileSize_def fsize_def MAX_FILE_SIZE_def ALLOWED_FILE_TYPES_def
  ALLOWED_EXTENSIONS_def endsWith_def toLowerCase_def

lemmas extract_defs = extractTextFromFile_def extractTextFromPDF_def cleanText_pdf_def trim_def
  isWhiteSpace_def endsWith_def toLowerCase_def replace_runs.simps split_js.simps

lemmas upload_defs = uploadResumeFile_def storage_upload_def Let_def

lemmas clean_defs = cleanText_pdf_def cleanText_docx_def replace_tabs_def trim_def
  isWhiteSpace_def replace_runs.simps split_js.simps

section \<open>The text normalizer\<close>

text \<open>
  Claim C2. One pass of the normalizer is not always a fixed point; two passes are. For
  every text \<open>x\<close>, on the PDF path and on the DOCX path, normalizing a third time changes
  nothing: \<open>normalize (normalize (normalize x)) = normalize (normalize x)\<close>.
\<close>

theorem cleanText_stable_after_two_passes:
  "cleanText_pdf (cleanText_pdf (cleanText_pdf x)) = cleanText_pdf (cleanText_pdf x) \<and>
   cleanText_docx (cleanText_docx (cleanText_docx x)) = cleanText_docx (cleanText_docx x)"
proof
  let ?y = "cleanText_pdf x"
  let ?z = "replace_runs 3 NL [NL, NL] ?y"
  have "cleanText_pdf ?z = replace_runs 3 NL [NL, NL] ?z"
    by (rule pdf_on_normal) (rule normal_collapse_NL; rule pdf_normal)+
  also have "\<dots> = ?z"
    unfolding lit_NL by (rule replace_runs_idem) simp
  finally show "cleanText_pdf (cleanText_pdf ?y) = cleanText_pdf ?y"
    by (simp add: pdf_twice)
next
  define Y where "Y = filter (\<lambda>line. length line > 0) (map trim (split_js [NL]
       (replace_tabs (replace_runs 3 NL [NL, NL] (replace_runs 2 SP [SP] x)))))"
  let ?c = "replace_runs 2 SP [SP]"
  have eq: "cleanText_docx x = join_js [NL] Y"
    and G: "\<forall>l\<in>set Y. l \<noteq> [] \<and> trimmed l \<and> NL \<notin> set l \<and> TAB \<notin> set l"
    unfolding Y_def by (rule docx_lines)+
  have eq2: "cleanText_docx (join_js [NL] Y) = join_js [NL] (map ?c Y)"
    and G2: "\<forall>l\<in>set (map ?c Y). l \<noteq> [] \<and> trimmed l \<and> NL \<notin> set l \<and> TAB \<notin> set l"
    using G by (rule docx_on_lines)+
  have "cleanText_docx (join_js [NL] (map ?c Y)) = join_js [NL] (map ?c (map ?c Y))"
    using G2 by (rule docx_on_lines)
  also have "map ?c (map ?c Y) = map ?c Y"
    using replace_runs_idem [of "Suc 0" 2 SP] by (simp add: lit_SP [symmetric])
  finally show "cleanText_docx (cleanText_docx (cleanText_docx x)) = cleanText_docx (cleanText_docx x)"
    by (simp add: eq eq2)
qed

text \<open>
  Idempotence itself fails on both paths. On the PDF path the lines are trimmed after the
  newline runs were collapsed: the CR LF text \<^verbatim>\<open>a\r\n\r\n\r\nb\<close> becomes
  \<^verbatim>\<open>a\n\n\nb\<close>, and only a second pass brings it to \<^verbatim>\<open>a\n\nb\<close>. On the DOCX path
  the tabs become spaces after the space runs were collapsed: \<^verbatim>\<open>a\t b\<close> becomes
  \<open>a\<close>, two spaces, \<open>b\<close>, and only a second pass leaves one space.
\<close>

theorem cleanText_not_idempotent_counterexample:
  "cleanText_pdf (cleanText_pdf crlf_text) \<noteq> cleanText_pdf crlf_text \<and>
   cleanText_docx (cleanText_docx tab_space_text) \<noteq> cleanText_docx tab_space_text"
proof -
  have 1: "cleanText_pdf crlf_text = [0x61, NL, NL, NL, 0x62]"
    by (simp add: crlf_text_def clean_defs)
  have 2: "cleanText_pdf [0x61, NL, NL, NL, 0x62] = [0x61, NL, NL, 0x62]"
    by (simp add: clean_defs)
  have 3: "cleanText_docx tab_space_text = [0x61, SP, SP, 0x62]"
    by (simp add: tab_space_text_def clean_defs)
  have 4: "cleanText_docx [0x61, SP, SP, 0x62] = [0x61, SP, 0x62]"
    by (simp add: clean_defs)
  show ?thesis by (simp add: 1 2 3 4)
qed

text \<open>
  Claim C9. It is the DOCX path, not the PDF path, that converts tabs. The PDF path is
  the collapsing of the runs of spaces and of three or more newlines followed by the
  trimming of every line and of the whole text. The DOCX path is the same collapsing,
  then every tab replaced by one space, then the same trimming, then the dropping of
  the blank lines. On a text that is already in the form the shared steps produce
  (no run of two or more spaces, every line non-empty and unchanged by trimming) the PDF
  path therefore changes nothing, tabs included, and the DOCX path changes every tab into
  one space and nothing else. In general the DOCX result never contains a tab, the PDF
  path never puts a space where the text had none, and on a text without tabs the DOCX
  result is the PDF result with its blank lines dropped.
\<close>

theorem cleanText_paths_differ_in_tabs_and_blank_lines:
  "cleanText_pdf x = trim_lines (collapse_runs x) \<and>
   cleanText_docx x =
     drop_blank_lines (trim_lines (map (\<lambda>c. if c = TAB then SP else c) (collapse_runs x))) \<and>
   ((\<forall>line\<in>set (split_js [NL] x). line \<noteq> [] \<and> trim line = line) \<and>
    replace_runs 2 SP [SP] x = x \<longrightarrow>
      cleanText_pdf x = x \<and>
      cleanText_docx x = map (\<lambda>c. if c = TAB then SP else c) x) \<and>
   TAB \<notin> set (cleanText_docx x) \<and>
   (SP \<notin> set x \<longrightarrow> SP \<notin> set (cleanText_pdf x)) \<and>
   (TAB \<notin> set x \<longrightarrow> cleanText_docx x = drop_blank_lines (cleanText_pdf x))"
proof (intro conjI impI)
  show "cleanText_pdf x = trim_lines (collapse_runs x)"
    by (rule pdf_as_steps)
  show "cleanText_docx x =
     drop_blank_lines (trim_lines (map (\<lambda>c. if c = TAB then SP else c) (collapse_runs x)))"
    using docx_as_steps [of x] by (simp only: replace_tabs_def)
  show "TAB \<notin> set (cleanText_docx x)"
    by (rule docx_no_tab)
next
  assume "(\<forall>line\<in>set (split_js [NL] x). line \<noteq> [] \<and> trim line = line) \<and>
    replace_runs 2 SP [SP] x = x"
  then have n: "\<forall>line\<in>set (split_js [NL] x). line \<noteq> [] \<and> trim line = line"
    "replace_runs 2 SP [SP] x = x"
    by blast+
  from n show "cleanText_pdf x = x"
    by (rule normal_text_paths)
  from n show "cleanText_docx x = map (\<lambda>c. if c = TAB then SP else c) x"
    unfolding replace_tabs_def [symmetric] by (rule normal_text_paths)
next
  assume "SP \<notin> set x"
  then show "SP \<notin> set (cleanText_pdf x)"
    by (rule pdf_no_new_space)
next
  assume "TAB \<notin> set x"
  then show "cleanText_docx x = drop_blank_lines (cleanText_pdf x)"
    unfolding drop_blank_lines_def by (rule docx_is_pdf_without_blank_lines)
qed

theorem cleanText_paths_differ_in_tabs_and_blank_lines_witness:
  "split_js [NL] two_tabs_text = [[0x61, TAB, TAB, 0x62], [0x63]] \<and>
   trim [0x61, TAB, TAB, 0x62] = [0x61, TAB, TAB, 0x62] \<and> trim [0x63] = [0x63] \<and>
   replace_runs 2 SP [SP] two_tabs_text = two_tabs_text \<and>
   cleanText_pdf two_tabs_text = two_tabs_text \<and>
   cleanText_docx two_tabs_text = [0x61, SP, SP, 0x62, NL, 0x63] \<and>
   SP \<notin> set tab_text \<and> SP \<notin> set (cleanText_pdf tab_text) \<and>
   TAB \<notin> set (cleanText_docx tab_text) \<and>
   TAB \<notin> set blank_lines_text \<and>
   cleanText_docx blank_lines_text = drop_blank_lines (cleanText_pdf blank_lines_text)"
proof -
  have 1: "SP \<notin> set tab_text" by (simp add: tab_text_def)
  have 2: "TAB \<notin> set blank_lines_text" by (simp add: blank_lines_text_def)
  have 0: "split_js [NL] two_tabs_text = [[0x61, TAB, TAB, 0x62], [0x63]]"
    "trim [0x61, TAB, TAB, 0x62] = [0x61, TAB, TAB, 0x62]" "trim [0x63] = [0x63]"
    by (simp_all add: two_tabs_text_def split_js.simps trim_def isWhiteSpace_def)
  then have 3: "\<forall>line\<in>set (split_js [NL] two_tabs_text). line \<noteq> [] \<and> trim line = line"
    by simp
  have 4: "replace_runs 2 SP [SP] two_tabs_text = two_tabs_text"
    by (simp add: two_tabs_text_def replace_runs.simps)
  have 5: "map (\<lambda>c. if c = TAB then SP else c) two_tabs_text = [0x61, SP, SP, 0x62, NL, 0x63]"
    by (simp add: two_tabs_text_def)
  have a: "cleanText_pdf two_tabs_text = two_tabs_text \<and>
      cleanText_docx two_tabs_text = map (\<lambda>c. if c = TAB then SP else c) two_tabs_text"
    using cleanText_paths_differ_in_tabs_and_blank_lines [of two_tabs_text] 3 4 by blast
  then have a': "cleanText_docx two_tabs_text = [0x61, SP, SP, 0x62, NL, 0x63]"
    by (simp only: 5)
  have b: "SP \<notin> set (cleanText_pdf tab_text) \<and> TAB \<notin> set (cleanText_docx tab_text)"
    using cleanText_paths_differ_in_tabs_and_blank_lines [of tab_text] 1 by blast
  have c: "cleanText_docx blank_lines_text = drop_blank_lines (cleanText_pdf blank_lines_text)"
    using cleanText_paths_differ_in_tabs_and_blank_lines [of blank_lines_text] 2 by blast
  from 0 1 2 4 a a' b c show ?thesis by blast
qed

text \<open>
  The claim as written has the two paths the wrong way round: a tab between two letters
  survives the PDF path and becomes a space on the DOCX path.
\<close>

theorem tabs_kept_on_pdf_path_counterexample:
  "cleanText_pdf tab_text = tab_text \<and> cleanText_docx tab_text = [0x61, SP, 0x62]"
  by (simp add: tab_text_def clean_defs)

section \<open>The format sniffer\<close>

lemma utf8_decode_length:
  "length (utf8_decode_from needed cp lower upper bs) \<le> length bs + (if needed = 0 then 0 else 1)"
  by (induction needed cp lower upper bs rule: utf8_decode_from.induct)
     (auto simp: utf16_def utf8_decode_from.simps)

lemma utf8_toString_length: "length (utf8_toString bs) \<le> length bs"
  using utf8_decode_length [of 0 0 "0x80" "0xBF" bs] by (simp add: utf8_toString_def)

lemma isValidDOCXBuffer_iff: "isValidDOCXBuffer buffer \<longleftrightarrow> take 2 buffer = [0x50, 0x4B]"
proof (cases buffer)
  case Nil
  then show ?thesis by (simp add: isValidDOCXBuffer_def nth_opt_def)
next
  case (Cons a as)
  then show ?thesis
    by (cases as) (auto simp: isValidDOCXBuffer_def nth_opt_def)
qed

text \<open>
  Claim C6. A buffer shorter than five bytes is never taken for a PDF, and a buffer
  shorter than two bytes is never taken for a DOCX package; neither check can throw.
  The DOCX check reads two bytes only: it accepts exactly the buffers that begin with
  \<^verbatim>\<open>0x50 0x4B\<close>, whatever their length.
\<close>

theorem short_buffer_sniffing:
  "(length buffer < 5 \<longrightarrow> \<not> isValidPDFBuffer buffer) \<and>
   (length buffer < 2 \<longrightarrow> \<not> isValidDOCXBuffer buffer) \<and>
   (isValidDOCXBuffer buffer \<longleftrightarrow> take 2 buffer = [0x50, 0x4B])"
proof (intro conjI impI)
  assume "length buffer < 5"
  then have "length (utf8_toString (take 5 buffer)) < 5"
    using utf8_toString_length [of "take 5 buffer"] by simp
  moreover have "length (js ''%PDF-'') = 5" by (simp add: js_def)
  ultimately show "\<not> isValidPDFBuffer buffer"
    by (auto simp: isValidPDFBuffer_def)
next
  assume "length buffer < 2"
  then show "\<not> isValidDOCXBuffer buffer"
    by (auto simp: isValidDOCXBuffer_iff)
next
  show "isValidDOCXBuffer buffer \<longleftrightarrow> take 2 buffer = [0x50, 0x4B]"
    by (rule isValidDOCXBuffer_iff)
qed

theorem short_buffer_sniffing_witness:
  "length [0x25, 0x50, 0x44, 0x46 :: byte] < 5 \<and> \<not> isValidPDFBuffer [0x25, 0x50, 0x44, 0x46] \<and>
   length [0x50 :: byte] < 2 \<and> \<not> isValidDOCXBuffer [0x50]"
  using short_buffer_sniffing [of "[0x25, 0x50, 0x44, 0x46]"] short_buffer_sniffing [of "[0x50]"]
  by simp

text \<open>
  So a buffer of two to four bytes that begins with \<^verbatim>\<open>PK\<close> is classified as a ZIP
  package, not as unknown.
\<close>

theorem short_zip_buffer_counterexample:
  "length [0x50, 0x4B :: byte] < 5 \<and> isValidDOCXBuffer [0x50, 0x4B]"
  by (simp add: isValidDOCXBuffer_def nth_opt_def)

section \<open>The input validator\<close>

text \<open>
  Claim C5. The declared-type check tests the MIME string and the extension each on its
  own: it succeeds exactly when the MIME string is one of the two allowed ones and the
  lower-cased name ends in \<^verbatim>\<open>.pdf\<close> or \<^verbatim>\<open>.docx\<close>. Whenever it fails, the message
  names the allowed formats. An agreeing pair is accepted, but agreement is not needed.
\<close>

theorem validateFileType_independent_checks:
  "(valid (validateFileType f) \<longleftrightarrow>
      (ftype f = PDF_MIME \<or> ftype f = DOCX_MIME) \<and>
      (endsWith (toLowerCase (fname f)) (js ''.pdf'') \<or>
       endsWith (toLowerCase (fname f)) (js ''.docx''))) \<and>
   (\<not> valid (validateFileType f) \<longrightarrow>
      verror (validateFileType f) = Some (js ''Invalid file type. Only PDF and DOCX files are allowed.'') \<or>
      verror (validateFileType f) = Some (js ''Invalid file extension. Only .pdf and .docx files are allowed.'')) \<and>
   (agrees_with_allowed_pair f \<longrightarrow> valid (validateFileType f))"
  by (auto simp: validateFileType_def agrees_with_allowed_pair_def ALLOWED_FILE_TYPES_def
      ALLOWED_EXTENSIONS_def Let_def)

theorem validateFileType_independent_checks_witness:
  "agrees_with_allowed_pair sample_pdf_file \<and> valid (validateFileType sample_pdf_file) \<and>
   \<not> valid (validateFileType \<lparr>fname = js ''notes.txt'', ftype = js ''text/plain'', fbytes = []\<rparr>) \<and>
   verror (validateFileType \<lparr>fname = js ''notes.txt'', ftype = js ''text/plain'', fbytes = []\<rparr>) =
     Some (js ''Invalid file type. Only PDF and DOCX files are allowed.'')"
proof -
  have 1: "agrees_with_allowed_pair sample_pdf_file"
    by (simp add: agrees_with_allowed_pair_def ALLOWED_FILE_TYPES_def endsWith_def
        toLowerCase_def eval_defs)
  have 2: "\<not> valid (validateFileType \<lparr>fname = js ''notes.txt'', ftype = js ''text/plain'', fbytes = []\<rparr>)"
    by (simp add: validateFileType_def ALLOWED_FILE_TYPES_def PDF_MIME_def DOCX_MIME_def js_def)
  have 3: "verror (validateFileType \<lparr>fname = js ''notes.txt'', ftype = js ''text/plain'', fbytes = []\<rparr>) \<noteq>
     Some (js ''Invalid file extension. Only .pdf and .docx files are allowed.'')"
    by (simp add: validateFileType_def ALLOWED_FILE_TYPES_def PDF_MIME_def DOCX_MIME_def js_def)
  from validateFileType_independent_checks [of sample_pdf_file]
    validateFileType_independent_checks
      [of "\<lparr>fname = js ''notes.txt'', ftype = js ''text/plain'', fbytes = []\<rparr>"] 1 2 3
  show ?thesis by blast
qed

text \<open>
  A file declared \<^verbatim>\<open>application/pdf\<close> and named \<^verbatim>\<open>cv.docx\<close> passes, although its
  MIME string and its extension belong to different pairs.
\<close>

theorem validateFileType_mixed_pair_counterexample:
  "valid (validateFileType pdf_named_docx_file) \<and> \<not> agrees_with_allowed_pair pdf_named_docx_file"
proof -
  have "PDF_MIME \<noteq> DOCX_MIME" by (simp add: PDF_MIME_def DOCX_MIME_def js_def)
  then show ?thesis
    by (simp add: pdf_named_docx_file_def validateFileType_def agrees_with_allowed_pair_def
        ALLOWED_FILE_TYPES_def ALLOWED_EXTENSIONS_def endsWith_def toLowerCase_def js_def)
qed

section \<open>The PDF extractor\<close>






lemma pdf_catch_fails [simp]: "\<not> pdf_success (pdf_catch e)"
  by (cases e) (simp_all add: pdf_catch_def pdf_failure_def)





lemma extractTextFromPDF_destroy_iff:
  "Destroy \<in> set (snd (extractTextFromPDF P pdfBuffer)) \<longleftrightarrow>
     pdfBuffer \<noteq> [] \<and> (\<exists>r. getText (P pdfBuffer) = Inr r) \<and> (\<exists>i. getInfo (P pdfBuffer) = Inr i)"
  by (auto simp: extractTextFromPDF_def Let_def split: sum.splits option.splits prod.splits)

text \<open>
  Claim C7. The parser is destroyed only when \<^verbatim>\<open>getText\<close> and \<^verbatim>\<open>getInfo\<close> have
  both returned. When \<^verbatim>\<open>getText\<close> throws, here on a buffer that is not a PDF, the
  extractor returns its failure having created the parser and never destroyed it.
\<close>

theorem extractTextFromPDF_error_path_skips_destroy:
  "extractTextFromPDF sample_pdf_parser garbage_bytes = (pdf_failure INVALID_PDF_MESSAGE, [New, GetText])"
  by (simp add: extractTextFromPDF_def pdf_catch_def sample_pdf_parser_simps
      short_buffers_nonempty INVALID_PDF_MESSAGE_def js_def)

section \<open>Ingestion\<close>

lemma uploadResumeFile_success:
  assumes "up_success (fst (uploadResumeFile e f userId w))"
  shows "uploadResumeFile e f userId w =
           (\<lparr>up_success = True, up_error = None,
             up_filePath = Some (generatedFilePath e f userId),
             up_fileUrl = Some (public_url e (generatedFilePath e f userId))\<rparr>,
            w\<lparr>calls := calls w @ [StorageUpload (generatedFilePath e f userId)],
              blobs := (blobs w)(generatedFilePath e f userId \<mapsto> fbytes f)\<rparr>)"
    and "blobs w (generatedFilePath e f userId) = None"
  using assms
  by (auto simp: uploadResumeFile_def storage_upload_def Let_def split: option.splits if_splits)

text \<open>
  The non-null assertions of \<^verbatim>\<open>parseResume\<close> are justified: a successful upload
  carries its path and URL, a successful extraction its text.
\<close>

lemma docx_catch_fails [simp]: "\<not> docx_success (docx_catch e)"
  by (cases e) (simp_all add: docx_catch_def docx_failure_def)

lemma pdf_success_has_text:
  "pdf_success (fst (extractTextFromPDF P b)) \<Longrightarrow> pdf_text (fst (extractTextFromPDF P b)) \<noteq> None"
  by (auto simp: extractTextFromPDF_def pdf_failure_def Let_def
      split: if_splits sum.splits option.splits prod.splits)

lemma docx_success_has_text:
  "docx_success (extractTextFromDOCX M b) \<Longrightarrow> docx_text (extractTextFromDOCX M b) \<noteq> None"
  by (auto simp: extractTextFromDOCX_def docx_failure_def Let_def
      split: if_splits sum.splits)

lemma extraction_success_has_text:
  "ex_success (extractTextFromFile e f) \<Longrightarrow> ex_text (extractTextFromFile e f) \<noteq> None"
  using pdf_success_has_text [of "PDFParse e" "fbytes f"]
    docx_success_has_text [of "extractRawText e" "fbytes f"]
  by (auto simp: extractTextFromFile_def Let_def split: if_splits)

text \<open>
  Claim C1. When the upload and the extraction have succeeded and the insert fails,
  \<^verbatim>\<open>parseResume\<close> returns the generic message, whatever the datastore's error says;
  the calls it issued are the upload, the insert and the removal of the blob at the
  generated path; and no row was added. The outcome of the removal is not looked at.
  The generated path was free before the upload; afterwards the bucket is as it was
  before when the blob store carried the removal out, and it holds the uploaded bytes
  at the generated path when the blob store failed it.
\<close>

theorem parseResume_insert_failure_rolls_back:
  assumes "valid (validateResumeFile f)"
    and "auth_user e = Some userId" and "\<not> auth_error e"
    and "up_success (fst (uploadResumeFile e f userId w))"
    and "ex_success (extractTextFromFile e f)"
    and "db_insert_error e = Some dbError"
  shows "fst (parseResume e (Some f) titleArg w) =
           \<lparr>success = False, error = Some (js ''Failed to save resume to database''), data = None\<rparr> \<and>
         (\<exists>resumeData. calls (snd (parseResume e (Some f) titleArg w)) =
            calls w @ [StorageUpload (generatedFilePath e f userId), ResumesInsert resumeData,
                       StorageRemove [generatedFilePath e f userId]]) \<and>
         resumes (snd (parseResume e (Some f) titleArg w)) = resumes w \<and>
         blobs w (generatedFilePath e f userId) = None \<and>
         blobs (snd (parseResume e (Some f) titleArg w)) =
           (if storage_remove_error e
            then (blobs w)(generatedFilePath e f userId \<mapsto> fbytes f)
            else blobs w)"
proof -
  note up = uploadResumeFile_success [OF assms(4)]
  have restore: "(blobs w)(generatedFilePath e f userId \<mapsto> fbytes f) |` (- {generatedFilePath e f userId})
      = blobs w"
    using up(2) by (auto simp: restrict_map_def fun_eq_iff)
  show ?thesis
    using assms(1,2,3,5,6) up restore
    by (simp add: parseResume_def Let_def db_insert_def storage_remove_def parse_failure_def)
qed

theorem parseResume_insert_failure_rolls_back_witness:
  "valid (validateResumeFile sample_pdf_file) \<and>
   auth_user failing_db_env = Some (js ''user-a'') \<and> \<not> auth_error failing_db_env \<and>
   up_success (fst (uploadResumeFile failing_db_env sample_pdf_file (js ''user-a'') empty_world)) \<and>
   ex_success (extractTextFromFile failing_db_env sample_pdf_file) \<and>
   db_insert_error failing_db_env = Some (js ''connection refused'') \<and>
   \<not> storage_remove_error failing_db_env \<and>
   fst (parseResume failing_db_env (Some sample_pdf_file) None empty_world) =
     \<lparr>success = False, error = Some (js ''Failed to save resume to database''), data = None\<rparr> \<and>
   blobs (snd (parseResume failing_db_env (Some sample_pdf_file) None empty_world)) =
     blobs empty_world"
proof -
  have 1: "valid (validateResumeFile sample_pdf_file)"
    by (simp add: validate_defs eval_defs)
  have 2: "auth_user failing_db_env = Some (js ''user-a'')" "\<not> auth_error failing_db_env"
    "db_insert_error failing_db_env = Some (js ''connection refused'')"
    "\<not> storage_remove_error failing_db_env"
    by (simp_all add: failing_db_env_def sample_env_def)
  have 3: "up_success (fst (uploadResumeFile failing_db_env sample_pdf_file (js ''user-a'') empty_world))"
    by (simp add: upload_defs failing_db_env_def sample_env_def empty_world_def)
  have 4: "ex_success (extractTextFromFile failing_db_env sample_pdf_file)"
    by (simp add: extract_defs failing_db_env_def eval_defs)
  from parseResume_insert_failure_rolls_back [OF 1 2(1) 2(2) 3 4 2(3), of None] 1 2 3 4
  show ?thesis by simp
qed

text \<open>
  The blob does not always cease to exist. When the blob store fails the removal as
  well, \<^verbatim>\<open>parseResume\<close> returns the same message, and the uploaded bytes stay in the
  bucket at the generated path, with no row that refers to them.
\<close>

theorem blob_survives_failed_removal_counterexample:
  "fst (parseResume failing_db_and_storage_env (Some sample_pdf_file) None empty_world) =
     \<lparr>success = False, error = Some (js ''Failed to save resume to database''), data = None\<rparr> \<and>
   StorageRemove [generatedFilePath failing_db_and_storage_env sample_pdf_file (js ''user-a'')]
     \<in> set (calls (snd (parseResume failing_db_and_storage_env (Some sample_pdf_file) None empty_world))) \<and>
   blobs empty_world (generatedFilePath failing_db_and_storage_env sample_pdf_file (js ''user-a''))
     = None \<and>
   blobs (snd (parseResume failing_db_and_storage_env (Some sample_pdf_file) None empty_world))
     (generatedFilePath failing_db_and_storage_env sample_pdf_file (js ''user-a''))
     = Some sample_pdf_bytes \<and>
   resumes (snd (parseResume failing_db_and_storage_env (Some sample_pdf_file) None empty_world))
     = Map.empty"
proof -
  let ?e = failing_db_and_storage_env
  let ?p = "generatedFilePath ?e sample_pdf_file (js ''user-a'')"
  have 1: "valid (validateResumeFile sample_pdf_file)"
    by (simp add: validate_defs eval_defs)
  have 2: "auth_user ?e = Some (js ''user-a'')" "\<not> auth_error ?e"
    "db_insert_error ?e = Some (js ''connection refused'')" "storage_remove_error ?e"
    by (simp_all add: failing_db_and_storage_env_def failing_db_env_def sample_env_def)
  have 3: "uploadResumeFile ?e sample_pdf_file (js ''user-a'') empty_world =
      (\<lparr>up_success = True, up_error = None, up_filePath = Some ?p,
        up_fileUrl = Some (public_url ?e ?p)\<rparr>,
       empty_world\<lparr>calls := calls empty_world @ [StorageUpload ?p],
         blobs := (blobs empty_world)(?p \<mapsto> fbytes sample_pdf_file)\<rparr>)"
    by (rule uploadResumeFile_success)
       (simp add: upload_defs failing_db_and_storage_env_def failing_db_env_def sample_env_def
          empty_world_def)
  have 4: "ex_success (extractTextFromFile ?e sample_pdf_file)"
    by (simp add: extract_defs failing_db_and_storage_env_def failing_db_env_def eval_defs)
  have 5: "fbytes sample_pdf_file = sample_pdf_bytes" "blobs empty_world ?p = None"
    "resumes empty_world = Map.empty"
    by (simp_all add: sample_pdf_file_def empty_world_def)
  show ?thesis
    using 1 2 3 4 5
    by (simp add: parseResume_def Let_def db_insert_def storage_remove_def parse_failure_def)
qed

text \<open>
  Claim C3. The format tag of a record that \<^verbatim>\<open>parseResume\<close> stores is computed from
  the declared MIME type alone: \<^verbatim>\<open>pdf\<close> when that is \<^verbatim>\<open>application/pdf\<close>, and
  \<^verbatim>\<open>docx\<close> otherwise, which after validation means the DOCX MIME type. The bytes are
  never consulted.
\<close>

theorem parseResume_format_tag_from_declared_type:
  assumes "success (fst (parseResume e (Some f) titleArg w))"
  shows "map_option file_type (resumes (snd (parseResume e (Some f) titleArg w)) (db_new_id e)) =
           Some (if ftype f = PDF_MIME then js ''pdf'' else js ''docx'') \<and>
         (ftype f = PDF_MIME \<or> ftype f = DOCX_MIME)"
proof -
  from assms have v: "valid (validateResumeFile f)"
    by (auto simp: parseResume_def Let_def parse_failure_def split: if_splits)
  then have "valid (validateFileType f)"
    by (auto simp: validateResumeFile_def Let_def split: if_splits)
  then have mime: "ftype f = PDF_MIME \<or> ftype f = DOCX_MIME"
    by (auto simp: validateFileType_def ALLOWED_FILE_TYPES_def Let_def split: if_splits)
  from assms v have "map_option file_type (resumes (snd (parseResume e (Some f) titleArg w)) (db_new_id e)) =
           Some (if ftype f = PDF_MIME then js ''pdf'' else js ''docx'')"
    by (auto simp: parseResume_def Let_def parse_failure_def db_insert_def
        ResumeInsert.extend_def
        split: if_splits option.splits prod.splits sum.splits)
  with mime show ?thesis by simp
qed

theorem parseResume_format_tag_from_declared_type_witness:
  "success (fst (parseResume sample_env (Some sample_pdf_file) None empty_world)) \<and>
   map_option file_type
     (resumes (snd (parseResume sample_env (Some sample_pdf_file) None empty_world)) (js ''r-1''))
     = Some (js ''pdf'')"
proof -
  have 1: "valid (validateResumeFile sample_pdf_file)"
    by (simp add: validate_defs eval_defs)
  have 3: "uploadResumeFile sample_env sample_pdf_file (js ''user-a'') empty_world =
      (\<lparr>up_success = True, up_error = None,
        up_filePath = Some (generatedFilePath sample_env sample_pdf_file (js ''user-a'')),
        up_fileUrl = Some (public_url sample_env (generatedFilePath sample_env sample_pdf_file (js ''user-a'')))\<rparr>,
       empty_world\<lparr>calls := calls empty_world @ [StorageUpload (generatedFilePath sample_env sample_pdf_file (js ''user-a''))],
         blobs := (blobs empty_world)(generatedFilePath sample_env sample_pdf_file (js ''user-a'') \<mapsto> fbytes sample_pdf_file)\<rparr>)"
    by (rule uploadResumeFile_success) (simp add: upload_defs sample_env_def empty_world_def)
  have 4: "ex_success (extractTextFromFile sample_env sample_pdf_file)"
    by (simp add: extract_defs eval_defs)
  have 5: "auth_user sample_env = Some (js ''user-a'')" "\<not> auth_error sample_env"
    "db_insert_error sample_env = None" "db_new_id sample_env = js ''r-1''"
    by (simp_all add: sample_env_def)
  have s: "success (fst (parseResume sample_env (Some sample_pdf_file) None empty_world))"
    using 1 3 4 5 by (simp add: parseResume_def Let_def db_insert_def)
  have "ftype sample_pdf_file = PDF_MIME" by (simp add: sample_pdf_file_def)
  with parseResume_format_tag_from_declared_type [OF s] s 5(4) show ?thesis by simp
qed

text \<open>
  A PDF uploaded under the name \<^verbatim>\<open>cv.pdf\<close> with the DOCX MIME type passes validation,
  is read by the PDF extractor because of its name, and is stored with the tag
  \<^verbatim>\<open>docx\<close>, although its bytes begin with \<^verbatim>\<open>%PDF-\<close>.
\<close>

theorem format_tag_ignores_bytes_counterexample:
  "success (fst (parseResume sample_env (Some mislabelled_pdf_file) None empty_world)) \<and>
   map_option file_type
     (resumes (snd (parseResume sample_env (Some mislabelled_pdf_file) None empty_world)) (js ''r-1''))
     = Some (js ''docx'') \<and>
   isValidPDFBuffer (fbytes mislabelled_pdf_file) \<and>
   \<not> tag_consistent_with_bytes (js ''docx'') (fbytes mislabelled_pdf_file)"
proof -
  have 1: "valid (validateResumeFile mislabelled_pdf_file)"
    by (simp add: validate_defs mislabelled_pdf_file_def eval_defs)
  have 3: "uploadResumeFile sample_env mislabelled_pdf_file (js ''user-a'') empty_world =
      (\<lparr>up_success = True, up_error = None,
        up_filePath = Some (generatedFilePath sample_env mislabelled_pdf_file (js ''user-a'')),
        up_fileUrl = Some (public_url sample_env (generatedFilePath sample_env mislabelled_pdf_file (js ''user-a'')))\<rparr>,
       empty_world\<lparr>calls := calls empty_world @ [StorageUpload (generatedFilePath sample_env mislabelled_pdf_file (js ''user-a''))],
         blobs := (blobs empty_world)(generatedFilePath sample_env mislabelled_pdf_file (js ''user-a'') \<mapsto> fbytes mislabelled_pdf_file)\<rparr>)"
    by (rule uploadResumeFile_success) (simp add: upload_defs sample_env_def empty_world_def)
  have 4: "ex_success (extractTextFromFile sample_env mislabelled_pdf_file)"
    by (simp add: extract_defs mislabelled_pdf_file_def eval_defs)
  have 5: "auth_user sample_env = Some (js ''user-a'')" "\<not> auth_error sample_env"
    "db_insert_error sample_env = None" "db_new_id sample_env = js ''r-1''"
    by (simp_all add: sample_env_def)
  have m: "ftype mislabelled_pdf_file \<noteq> PDF_MIME"
    by (simp add: mislabelled_pdf_file_def PDF_MIME_def DOCX_MIME_def js_def)
  have s: "success (fst (parseResume sample_env (Some mislabelled_pdf_file) None empty_world))"
    using 1 3 4 5 by (simp add: parseResume_def Let_def db_insert_def)
  have t: "map_option file_type
     (resumes (snd (parseResume sample_env (Some mislabelled_pdf_file) None empty_world)) (js ''r-1''))
     = Some (js ''docx'')"
    using 1 3 4 5 m by (simp add: parseResume_def Let_def db_insert_def ResumeInsert.extend_def)
  have b: "isValidPDFBuffer (fbytes mislabelled_pdf_file)"
    "\<not> isValidDOCXBuffer (fbytes mislabelled_pdf_file)"
    by (simp_all add: mislabelled_pdf_file_def sample_pdf_bytes_sniffed)
  have d: "js ''docx'' \<noteq> js ''pdf''" by (simp add: js_def)
  from s t b d show ?thesis by (simp add: tag_consistent_with_bytes_def)
qed

section \<open>Deletion\<close>


lemma deleteResume_messages_distinct:
  "js ''Resume not found'' \<noteq> js ''Unauthorized''"
  "js ''Failed to delete resume'' \<noteq> js ''Unauthorized''"
  by (simp_all add: js_def)

text \<open>
  The lookup returns a row only to its owner, so the comparison of the caller with the
  owner that follows it never fails: no call of \<^verbatim>\<open>deleteResume\<close> answers
  \<^verbatim>\<open>Unauthorized\<close>.
\<close>

lemma deleteResume_never_unauthorized:
  "del_error (fst (deleteResume e resumeId w)) \<noteq> Some (js ''Unauthorized'')"
  by (auto simp: deleteResume_def db_select_single_def db_delete_def Let_def
      deleteResume_messages_distinct split: option.splits if_splits prod.splits)






end
